theory Spec2Isabelle
  imports Complex_Main "HOL-Library.Sublist"
begin

section \<open>Python strings\<close>

text \<open>
  A Python \<open>str\<close> is modelled as a \<open>string\<close> whose characters are ASCII code points.
  The character classes and case mappings below are Python's on ASCII; outside ASCII
  Python consults the Unicode tables, which are not modelled, so the theorems that
  depend on a character class carry the hypothesis \<open>ascii_str\<close>.
\<close>

definition code :: "char \<Rightarrow> nat" where
  "code c = of_char c"

definition is_ascii :: "char \<Rightarrow> bool" where
  "is_ascii c = (code c < 128)"

definition ascii_str :: "string \<Rightarrow> bool" where
  "ascii_str s = list_all is_ascii s"

definition isupper :: "char \<Rightarrow> bool" where
  "isupper c = (65 \<le> code c \<and> code c \<le> 90)"

definition islower :: "char \<Rightarrow> bool" where
  "islower c = (97 \<le> code c \<and> code c \<le> 122)"

definition isdigit :: "char \<Rightarrow> bool" where
  "isdigit c = (48 \<le> code c \<and> code c \<le> 57)"

definition isalnum :: "char \<Rightarrow> bool" where
  "isalnum c = (isupper c \<or> islower c \<or> isdigit c)"

text \<open>The ASCII characters for which \<open>str.isspace\<close> holds: tab, line feed, vertical tab,
  form feed, carriage return, the four separators 28 to 31, and the space.\<close>

definition isspace :: "char \<Rightarrow> bool" where
  "isspace c = ((9 \<le> code c \<and> code c \<le> 13) \<or> (28 \<le> code c \<and> code c \<le> 32))"

definition lower_char :: "char \<Rightarrow> char" where
  "lower_char c = (if isupper c then char_of (code c + 32) else c)"

definition upper_char :: "char \<Rightarrow> char" where
  "upper_char c = (if islower c then char_of (code c - 32) else c)"

definition lower :: "string \<Rightarrow> string" where
  "lower s = map lower_char s"

definition upper :: "string \<Rightarrow> string" where
  "upper s = map upper_char s"

text \<open>\<open>s.lstrip(chars)\<close>, \<open>s.rstrip(chars)\<close>, \<open>s.strip(chars)\<close> and the argument-free
  \<open>s.strip()\<close>.\<close>

definition lstrip :: "string \<Rightarrow> string \<Rightarrow> string" where
  "lstrip chars s = dropWhile (\<lambda>c. c \<in> set chars) s"

definition rstrip :: "string \<Rightarrow> string \<Rightarrow> string" where
  "rstrip chars s = rev (dropWhile (\<lambda>c. c \<in> set chars) (rev s))"

definition strip_chars :: "string \<Rightarrow> string \<Rightarrow> string" where
  "strip_chars chars s = rstrip chars (lstrip chars s)"

definition strip :: "string \<Rightarrow> string" where
  "strip s = rev (dropWhile isspace (rev (dropWhile isspace s)))"

text \<open>\<open>needle in s\<close>, \<open>s.endswith(t)\<close> and \<open>s.startswith(t)\<close>.\<close>

definition contains :: "string \<Rightarrow> string \<Rightarrow> bool" where
  "contains needle s = sublist needle s"

definition endswith :: "string \<Rightarrow> string \<Rightarrow> bool" where
  "endswith s t = suffix t s"

definition startswith :: "string \<Rightarrow> string \<Rightarrow> bool" where
  "startswith s t = prefix t s"

text \<open>\<open>s.replace(old, new)\<close>: the non-overlapping occurrences of \<open>old\<close>, left to right.
  With an empty \<open>old\<close> Python puts \<open>new\<close> before every character and at the end.\<close>

fun replace_all :: "string \<Rightarrow> string \<Rightarrow> string \<Rightarrow> string" where
  "replace_all old new [] = []"
| "replace_all old new (c # cs) =
     (if old \<noteq> [] \<and> prefix old (c # cs)
      then new @ replace_all old new (drop (length old) (c # cs))
      else c # replace_all old new cs)"

definition replace :: "string \<Rightarrow> string \<Rightarrow> string \<Rightarrow> string" where
  "replace old new s =
     (if old = [] then new @ concat (map (\<lambda>c. c # new) s) else replace_all old new s)"

text \<open>\<open>s.split(sep)\<close> for a one-character separator (empty pieces are kept, and the
  empty string gives one empty piece), and \<open>sep.join(pieces)\<close>.\<close>

fun split_char :: "char \<Rightarrow> string \<Rightarrow> string list" where
  "split_char sep [] = [[]]"
| "split_char sep (c # cs) =
     (if c = sep then [] # split_char sep cs
      else (case split_char sep cs of
              [] \<Rightarrow> [[c]]
            | w # ws \<Rightarrow> (c # w) # ws))"

fun join :: "string \<Rightarrow> string list \<Rightarrow> string" where
  "join sep [] = []"
| "join sep [w] = w"
| "join sep (w # v # ws) = w @ sep @ join sep (v # ws)"

text \<open>The line feed and the double quote, for the texts of prompts.\<close>

definition newline :: string where
  "newline = [CHR 0x0A]"

definition dquote :: string where
  "dquote = [CHR 0x22]"

section \<open>Tabular engine: table names\<close>

text \<open>\<open>SQLEngine._sanitize_table_name\<close> (sql_engine.py).\<close>

definition sanitize_table_name :: "string \<Rightarrow> string" where
  "sanitize_table_name filename =
     (let name0 = replace ''.CSV'' '''' (replace ''.csv'' '''' filename);
          name1 = map (\<lambda>c. if isalnum c then c else CHR ''_'') name0;
          name2 = lstrip ''0123456789_'' name1;
          name3 = join ''_'' (filter (\<lambda>w. w \<noteq> []) (split_char CHR ''_'' name2));
          name4 = (if name3 \<noteq> [] \<and> isdigit (hd name3) then ''table_'' @ name3 else name3)
      in if name4 \<noteq> [] then lower name4 else ''unnamed_table'')"



section \<open>Exceptions and numbers as text\<close>

text \<open>A Python exception, with the text that \<open>str(e)\<close> gives.\<close>

datatype exn = Exception string

fun str_exn :: "exn \<Rightarrow> string" where
  "str_exn (Exception msg) = msg"

text \<open>\<open>str(n)\<close> for a Python integer, as an f-string inserts it.\<close>

definition digit_char :: "nat \<Rightarrow> char" where
  "digit_char d = char_of (48 + d)"

function str_of_nat :: "nat \<Rightarrow> string" where
  "str_of_nat n = (if n < 10 then [digit_char n] else str_of_nat (n div 10) @ [digit_char (n mod 10)])"
  by pat_completeness auto
termination
  by (relation "measure id") auto

declare str_of_nat.simps [simp del]

definition str_of_int :: "int \<Rightarrow> string" where
  "str_of_int i = (if i < 0 then CHR ''-'' # str_of_nat (nat (- i)) else str_of_nat (nat i))"

text \<open>The slice \<open>xs[:n]\<close>: a negative \<open>n\<close> counts from the end.\<close>

definition py_prefix :: "int \<Rightarrow> 'a list \<Rightarrow> 'a list" where
  "py_prefix n xs = (if 0 \<le> n then take (nat n) xs else take (length xs - nat (- n)) xs)"

section \<open>Tabular engine\<close>

text \<open>
  A pandas data frame, column by column: the column's name, the \<open>dtype\<close> pandas inferred
  and its values. \<open>len(df)\<close> is the number of values of a column.
\<close>

datatype cell = CNull | CInt int | CStr string

record column =
  column_name :: string
  dtype :: string
  vals :: "cell list"

type_synonym frame = "column list"

definition frame_len :: "frame \<Rightarrow> nat" where
  "frame_len df = (case df of [] \<Rightarrow> 0 | c # _ \<Rightarrow> length (vals c))"

text \<open>\<open>df.to_dict('records')\<close>: one dictionary per row.\<close>

definition to_records :: "frame \<Rightarrow> (string \<times> cell) list list" where
  "to_records df = map (zip (map column_name df)) (transpose (map vals df))"

text \<open>\<open>SQLEngine._get_schema\<close>. The rendering \<open>str(list)\<close> of the three sample values is
  Python's and is passed in as \<open>render\<close>.\<close>

record schema_entry =
  schema_column_name :: string
  data_type :: string
  sample_values :: string

definition get_schema :: "(cell list \<Rightarrow> string) \<Rightarrow> frame \<Rightarrow> schema_entry list" where
  "get_schema render df =
     map (\<lambda>col. \<lparr>schema_column_name = column_name col, data_type = dtype col,
                 sample_values = render (take 3 (vals col))\<rparr>) df"

text \<open>The engine's state: \<open>self.dataframes\<close> and \<open>self.table_schemas\<close>.\<close>

record engine =
  dataframes :: "string \<rightharpoonup> frame"
  table_schemas :: "string \<rightharpoonup> schema_entry list"

text \<open>
  \<open>SQLEngine.execute_query\<close>. The SQL itself is run by pandasql, a library outside the
  repository: \<open>sqldf\<close> is a parameter that gives the resulting frame or raises. The
  dictionary returned is \<open>Success\<close> (\<open>'success': True\<close>) or \<open>Failure\<close>; both carry the
  query text that was handed to \<open>sqldf\<close>.
\<close>

datatype query_result =
    Success (row_count: nat) (column_count: nat) (result_columns: "string list")
            (result_rows: "(string \<times> cell) list list") (executed_query: string)
  | Failure (error_text: string) (failed_query: string)

definition limited_query :: "string \<Rightarrow> int \<Rightarrow> string" where
  "limited_query query limit =
     (let query_upper = strip (upper query)
      in if \<not> contains ''LIMIT'' query_upper \<and> \<not> endswith query_upper '';''
         then rstrip '';'' query @ '' LIMIT '' @ str_of_int limit
         else query)"

definition run_sql ::
  "(string \<Rightarrow> (string \<rightharpoonup> frame) \<Rightarrow> exn + frame) \<Rightarrow> (string \<rightharpoonup> frame) \<Rightarrow> string \<Rightarrow> query_result"
where
  "run_sql sqldf dfs sql_text =
     (case sqldf sql_text dfs of
        Inl e \<Rightarrow> Failure (str_exn e) sql_text
      | Inr result_df \<Rightarrow>
          Success (frame_len result_df) (length result_df) (map column_name result_df)
                  (to_records result_df) sql_text)"

definition execute_query ::
  "(string \<Rightarrow> (string \<rightharpoonup> frame) \<Rightarrow> exn + frame) \<Rightarrow> engine \<Rightarrow> string \<Rightarrow> int \<Rightarrow> query_result"
where
  "execute_query sqldf eng query limit = run_sql sqldf (dataframes eng) (limited_query query limit)"

text \<open>The number of rows a result carries; an error result carries none.\<close>

fun rows_returned :: "query_result \<Rightarrow> nat" where
  "rows_returned (Success n _ _ _ _) = n"
| "rows_returned (Failure _ _) = 0"

text \<open>
  A small SQL executor to run the engine on concrete inputs. It understands only
  \<open>SELECT * FROM name\<close>, optionally followed by \<open>LIMIT n\<close> and by a semicolon, and answers
  as SQLite does on these statements: every row of the table, or its first \<open>n\<close> rows (a
  negative \<open>n\<close> means no limit).
\<close>

definition digit_val :: "char \<Rightarrow> nat" where
  "digit_val c = code c - 48"

definition parse_nat :: "string \<Rightarrow> nat option" where
  "parse_nat s =
     (if s \<noteq> [] \<and> list_all isdigit s then Some (foldl (\<lambda>acc c. 10 * acc + digit_val c) 0 s)
      else None)"

definition frame_head :: "nat \<Rightarrow> frame \<Rightarrow> frame" where
  "frame_head n df = map (\<lambda>col. col\<lparr>vals := take n (vals col)\<rparr>) df"

definition select_all_sqldf :: "string \<Rightarrow> (string \<rightharpoonup> frame) \<Rightarrow> exn + frame" where
  "select_all_sqldf sql_text dfs =
     (let body = strip (rstrip '';'' (strip sql_text))
      in if \<not> startswith body ''SELECT * FROM '' then Inl (Exception ''unsupported statement'')
         else
           (let rest = drop 14 body;
                table = takeWhile (\<lambda>c. c \<noteq> CHR '' '') rest;
                clause = dropWhile (\<lambda>c. c \<noteq> CHR '' '') rest
            in case dfs table of
                 None \<Rightarrow> Inl (Exception (''no such table: '' @ table))
               | Some df \<Rightarrow>
                   if clause = [] then Inr df
                   else if startswith clause '' LIMIT -'' then
                     (case parse_nat (drop 8 clause) of
                        None \<Rightarrow> Inl (Exception ''syntax error'')
                      | Some n \<Rightarrow> Inr df)
                   else if startswith clause '' LIMIT '' then
                     (case parse_nat (drop 7 clause) of
                        None \<Rightarrow> Inl (Exception ''syntax error'')
                      | Some n \<Rightarrow> Inr (frame_head n df))
                   else Inl (Exception ''unsupported statement'')))"

text \<open>A table of one integer column \<open>id\<close> holding \<open>0, \<dots>, n - 1\<close>.\<close>

definition id_table :: "nat \<Rightarrow> frame" where
  "id_table n = [\<lparr>column_name = ''id'', dtype = ''int64'', vals = map (\<lambda>i. CInt (int i)) [0..<n]\<rparr>]"

definition one_table :: "string \<Rightarrow> frame \<Rightarrow> engine" where
  "one_table name df = \<lparr>dataframes = [name \<mapsto> df], table_schemas = Map.empty\<rparr>"

subsection \<open>Loading CSV files\<close>

text \<open>
  \<open>SQLEngine._read_csv_with_encoding\<close>: \<open>pd.read_csv\<close> (a parameter: it gives a frame or
  raises) is tried with each encoding in turn; the first frame read is returned, and
  \<open>None\<close> when every encoding fails.
\<close>

definition encodings :: "string list" where
  "encodings = [''utf-8'', ''latin-1'', ''iso-8859-1'', ''cp1252'', ''utf-16'']"

fun first_readable :: "(string \<Rightarrow> string \<Rightarrow> exn + frame) \<Rightarrow> string \<Rightarrow> string list \<Rightarrow> frame option" where
  "first_readable read_csv file_path [] = None"
| "first_readable read_csv file_path (encoding # rest) =
     (case read_csv file_path encoding of
        Inr df \<Rightarrow> Some df
      | Inl _ \<Rightarrow> first_readable read_csv file_path rest)"

definition read_csv_with_encoding :: "(string \<Rightarrow> string \<Rightarrow> exn + frame) \<Rightarrow> string \<Rightarrow> frame option" where
  "read_csv_with_encoding read_csv file_path = first_readable read_csv file_path encodings"

text \<open>\<open>os.path.join\<close> of a directory and a file name, and \<open>os.path.basename\<close>.\<close>

definition path_join :: "string \<Rightarrow> string \<Rightarrow> string" where
  "path_join dir filename =
     (if dir = [] \<or> last dir = CHR ''/'' then dir @ filename else dir @ ''/'' @ filename)"

definition basename :: "string \<Rightarrow> string" where
  "basename file_path = rev (takeWhile (\<lambda>c. c \<noteq> CHR ''/'') (rev file_path))"

text \<open>
  The file system and pandas, as the engine sees them: \<open>dir_exists\<close> is \<open>os.path.exists\<close>,
  \<open>listdir\<close> is \<open>os.listdir\<close> (it raises on a path that is not a directory), \<open>read_csv\<close> is
  \<open>pd.read_csv\<close> and \<open>render\<close> is \<open>str\<close> on a list of values.
\<close>

record world =
  dir_exists :: "string \<Rightarrow> bool"
  listdir :: "string \<Rightarrow> exn + string list"
  read_csv :: "string \<Rightarrow> string \<Rightarrow> exn + frame"
  render :: "cell list \<Rightarrow> string"

text \<open>The body of the inner loop of \<open>SQLEngine.load_all_csv_files\<close>, for one file name of
  one directory: the engine and the count of files loaded so far are updated.\<close>

definition load_one_file :: "world \<Rightarrow> string \<Rightarrow> engine \<times> nat \<Rightarrow> string \<Rightarrow> engine \<times> nat" where
  "load_one_file w csv_directory st filename =
     (let eng = fst st; csv_count = snd st
      in if endswith (lower filename) ''.csv'' then
           (let file_path = path_join csv_directory filename;
                table_name = sanitize_table_name filename
            in if dataframes eng table_name \<noteq> None then (eng, csv_count)
               else
                 (case read_csv_with_encoding (read_csv w) file_path of
                    None \<Rightarrow> (eng, csv_count)
                  | Some df \<Rightarrow>
                      (eng\<lparr>dataframes := (dataframes eng)(table_name \<mapsto> df),
                           table_schemas := (table_schemas eng)(table_name \<mapsto> get_schema (render w) df)\<rparr>,
                       csv_count + 1)))
         else (eng, csv_count))"

text \<open>The outer loop. A directory that does not exist is skipped; \<open>os.listdir\<close> is outside
  the \<open>try\<close>, so when it raises the exception leaves the method, with the engine as the
  directories before have left it.\<close>

fun load_directories :: "world \<Rightarrow> string list \<Rightarrow> engine \<times> nat \<Rightarrow> engine \<times> (exn + nat)" where
  "load_directories w [] st = (fst st, Inr (snd st))"
| "load_directories w (csv_directory # rest) st =
     (if \<not> dir_exists w csv_directory then load_directories w rest st
      else
        (case listdir w csv_directory of
           Inl e \<Rightarrow> (fst st, Inl e)
         | Inr filenames \<Rightarrow>
             (let st' = foldl (load_one_file w csv_directory) (fst st, 0) filenames
              in load_directories w rest (fst st', snd st + snd st'))))"

definition load_all_csv_files :: "world \<Rightarrow> string list \<Rightarrow> engine \<Rightarrow> engine \<times> (exn + nat)" where
  "load_all_csv_files w csv_directories eng = load_directories w csv_directories (eng, 0)"

text \<open>\<open>SQLEngine.add_csv_file\<close>: the engine afterwards and the Boolean returned.
  \<open>table_name or self._sanitize_table_name(filename)\<close> takes the derived name when no
  name, or an empty one, is given.\<close>

definition add_csv_file :: "world \<Rightarrow> engine \<Rightarrow> string \<Rightarrow> string option \<Rightarrow> engine \<times> bool" where
  "add_csv_file w eng file_path table_name =
     (let filename = basename file_path;
          table_name' = (case table_name of
                           None \<Rightarrow> sanitize_table_name filename
                         | Some t \<Rightarrow> if t \<noteq> [] then t else sanitize_table_name filename)
      in case read_csv_with_encoding (read_csv w) file_path of
           None \<Rightarrow> (eng, False)
         | Some df \<Rightarrow>
             (eng\<lparr>dataframes := (dataframes eng)(table_name' \<mapsto> df),
                  table_schemas := (table_schemas eng)(table_name' \<mapsto> get_schema (render w) df)\<rparr>,
              True))"

text \<open>\<open>SQLEngine.reload_csv_files\<close>: both dictionaries are cleared, then everything is
  loaded again.\<close>

definition reload_csv_files :: "world \<Rightarrow> string list \<Rightarrow> engine \<Rightarrow> engine \<times> (exn + nat)" where
  "reload_csv_files w csv_directories eng =
     load_all_csv_files w csv_directories (eng\<lparr>dataframes := Map.empty, table_schemas := Map.empty\<rparr>)"

text \<open>
  The loop body of the knowledge-base loader (\<open>load_kb.py\<close>), the caller of
  \<open>add_csv_file\<close> that has a forced reload: a file whose table exists is skipped unless
  \<open>force_reload\<close> is set. \<open>stem\<close> is the file name without its last suffix.
\<close>

definition stem :: "string \<Rightarrow> string" where
  "stem filename =
     (let r = rev filename; suffix_rev = takeWhile (\<lambda>c. c \<noteq> CHR ''.'') r;
          rest = dropWhile (\<lambda>c. c \<noteq> CHR ''.'') r
      in if length rest \<le> 1 \<or> suffix_rev = [] then filename else rev (tl rest))"

definition kb_load_csv :: "world \<Rightarrow> bool \<Rightarrow> engine \<Rightarrow> string \<Rightarrow> engine \<times> bool" where
  "kb_load_csv w force_reload eng csv_file =
     (let table_name = sanitize_table_name (stem (basename csv_file))
      in if \<not> force_reload \<and> dataframes eng table_name \<noteq> None then (eng, False)
         else add_csv_file w eng csv_file (Some table_name))"

text \<open>A world for concrete runs: one directory \<open>dir\<close> holding the given files, each
  with the frame it reads as (in any encoding); any other file fails to read.\<close>

definition files_world :: "string \<Rightarrow> (string \<times> frame) list \<Rightarrow> world" where
  "files_world dir files =
     \<lparr>dir_exists = (\<lambda>d. d = dir),
      listdir = (\<lambda>d. Inr (map fst files)),
      read_csv = (\<lambda>file_path encoding.
                    case map_of files (basename file_path) of
                      None \<Rightarrow> Inl (Exception ''No such file or directory'')
                    | Some df \<Rightarrow> Inr df),
      render = (\<lambda>vs. [])\<rparr>"

section \<open>Query classifier\<close>

text \<open>
  The language model is a collaborator outside the repository: \<open>llm\<close> stands for
  \<open>self.llm.invoke(prompt).content\<close> and gives the text of the answer or raises.
\<close>

type_synonym llm = "string \<Rightarrow> exn + string"

datatype QueryType = STRUCTURED_SQL | SEMANTIC_RAG | HYBRID

text \<open>\<open>QueryType.value\<close>.\<close>

fun query_type_value :: "QueryType \<Rightarrow> string" where
  "query_type_value STRUCTURED_SQL = ''structured_sql''"
| "query_type_value SEMANTIC_RAG = ''semantic_rag''"
| "query_type_value HYBRID = ''hybrid''"

text \<open>The two vocabularies of \<open>QueryClassifier.__init__\<close>. They are Python sets; the
  lists below have no repetition, and only the number of matching members is used.\<close>

definition sql_keywords :: "string list" where
  "sql_keywords =
     [''count'', ''total'', ''sum'', ''average'', ''max'', ''min'', ''how many'',
      ''list all'', ''show all'', ''filter'', ''where'', ''group by'',
      ''aggregate'', ''statistics'', ''top'', ''bottom'', ''ranking'',
      ''fees'', ''fee'', ''provider'', ''providers'', ''course'', ''courses'',
      ''data'', ''records'', ''entries'', ''price'', ''cost'', ''degree'', ''degrees'']"

definition rag_keywords :: "string list" where
  "rag_keywords =
     [''how to'', ''what is'', ''explain'', ''describe'', ''why'',
      ''process'', ''procedure'', ''steps'', ''guide'', ''overview'',
      ''concept'', ''definition'', ''meaning'', ''purpose'', ''workflow'',
      ''application'', ''management'', ''leads'', ''crm'']"

text \<open>\<open>sum(1 for keyword in keywords if keyword in query_lower)\<close>.\<close>

definition keyword_matches :: "string list \<Rightarrow> string \<Rightarrow> nat" where
  "keyword_matches keywords query_lower = length (filter (\<lambda>keyword. contains keyword query_lower) keywords)"

definition sql_matches :: "string \<Rightarrow> nat" where
  "sql_matches query = keyword_matches sql_keywords (lower query)"

definition rag_matches :: "string \<Rightarrow> nat" where
  "rag_matches query = keyword_matches rag_keywords (lower query)"

text \<open>\<open>QueryClassifier._keyword_based_classification\<close>; \<open>None\<close> is Python's \<open>None\<close>.\<close>

definition keyword_based_classification :: "string \<Rightarrow> QueryType option" where
  "keyword_based_classification query =
     (if sql_matches query \<ge> 2 \<and> rag_matches query = 0 then Some STRUCTURED_SQL
      else if rag_matches query \<ge> 2 \<and> sql_matches query = 0 then Some SEMANTIC_RAG
      else if sql_matches query \<ge> 1 \<and> rag_matches query \<ge> 1 then Some HYBRID
      else None)"

text \<open>\<open>QueryClassifier._llm_based_classification\<close>, with its prompt.\<close>

definition classification_prompt :: "string \<Rightarrow> string list \<Rightarrow> string" where
  "classification_prompt query available_tables =
     join newline
       [''You are a query classifier. Analyze the user query and classify it into one of three categories:'',
        [],
        ''1. STRUCTURED_SQL: Queries that need filtering, aggregation, counting, or statistical operations on structured data (CSV tables)'',
        ''   - Examples: '' @ dquote @ ''How many providers are there?'' @ dquote @ '', ''
           @ dquote @ ''Show me all fees above 1000'' @ dquote @ '', ''
           @ dquote @ ''List providers in NSW'' @ dquote,
        [],
        ''2. SEMANTIC_RAG: Queries asking for conceptual information, explanations, procedures, or guidance from documents'',
        ''   - Examples: '' @ dquote @ ''How to add a lead?'' @ dquote @ '', ''
           @ dquote @ ''What is the application process?'' @ dquote @ '', ''
           @ dquote @ ''Explain CRM features'' @ dquote,
        [],
        ''3. HYBRID: Queries that need both structured data AND conceptual information'',
        ''   - Examples: '' @ dquote @ ''Show me all providers and explain how to contact them'' @ dquote @ '', ''
           @ dquote @ ''List high fees and why they are set'' @ dquote,
        [],
        ''Available SQL Tables: ''
           @ (if available_tables \<noteq> [] then join '', '' available_tables else ''None''),
        [],
        ''User Query: '' @ dquote @ query @ dquote,
        [],
        ''Classification (respond with ONLY one word: STRUCTURED_SQL, SEMANTIC_RAG, or HYBRID):'']"

definition llm_based_classification :: "llm \<Rightarrow> string \<Rightarrow> string list \<Rightarrow> QueryType" where
  "llm_based_classification llm query available_tables =
     (case llm (classification_prompt query available_tables) of
        Inl e \<Rightarrow> SEMANTIC_RAG
      | Inr response \<Rightarrow>
          (let classification = upper (strip response)
           in if contains ''STRUCTURED_SQL'' classification then STRUCTURED_SQL
              else if contains ''SEMANTIC_RAG'' classification then SEMANTIC_RAG
              else if contains ''HYBRID'' classification then HYBRID
              else SEMANTIC_RAG))"

text \<open>\<open>QueryClassifier.classify_query\<close> and the dictionary it returns.\<close>

record classification =
  query_type :: string
  classification_method :: string
  confidence :: string
  requires_sql :: bool
  requires_rag :: bool
  available_tables :: "string list"

definition routing :: "QueryType \<Rightarrow> string \<Rightarrow> string \<Rightarrow> string list \<Rightarrow> classification" where
  "routing qt method conf tables =
     \<lparr>query_type = query_type_value qt,
      classification_method = method,
      confidence = conf,
      requires_sql = (qt \<in> set [STRUCTURED_SQL, HYBRID]),
      requires_rag = (qt \<in> set [SEMANTIC_RAG, HYBRID]),
      available_tables = tables\<rparr>"

definition classify_query :: "llm \<Rightarrow> string \<Rightarrow> string list option \<Rightarrow> classification" where
  "classify_query llm query tables =
     (let available_tables = (case tables of None \<Rightarrow> [] | Some ts \<Rightarrow> ts)
      in case keyword_based_classification query of
           Some keyword_result \<Rightarrow> routing keyword_result ''keyword'' ''high'' available_tables
         | None \<Rightarrow>
             routing (llm_based_classification llm query available_tables)
                     ''llm'' ''medium'' available_tables)"

section \<open>Documents\<close>

text \<open>
  A langchain \<open>Document\<close> has a text and a metadata dictionary. The retriever tells
  documents apart by \<open>id(doc)\<close>, the identity of the Python object, and writes scores into
  their metadata in place; so documents live in a store, from references (the object
  identities) to the documents, and the result lists hold references.
\<close>

datatype meta_value = MStr string | MInt int | MFloat real

record document =
  page_content :: string
  metadata :: "string \<rightharpoonup> meta_value"

type_synonym ref = nat

type_synonym store = "ref \<rightharpoonup> document"

type_synonym scored = "(ref \<times> real) list"

text \<open>\<open>doc.metadata[key] = v\<close> on the document behind a reference.\<close>

definition set_meta :: "store \<Rightarrow> ref \<Rightarrow> string \<Rightarrow> meta_value \<Rightarrow> store" where
  "set_meta h d key v =
     (case h d of
        None \<Rightarrow> h
      | Some doc \<Rightarrow> h(d \<mapsto> doc\<lparr>metadata := (metadata doc)(key \<mapsto> v)\<rparr>))"


section \<open>Hybrid retriever\<close>

text \<open>
  \<open>HybridRetriever.reciprocal_rank_fusion\<close>. The dictionary \<open>doc_scores\<close>, from \<open>id(doc)\<close>
  to the accumulated score, is a list of pairs in the order of first insertion, the order
  in which Python iterates over it.
\<close>

definition rrf_constant :: nat where
  "rrf_constant = 60"

definition add_score :: "ref \<Rightarrow> real \<Rightarrow> (ref \<times> real) list \<Rightarrow> (ref \<times> real) list" where
  "add_score d rrf_score ds =
     (if d \<in> fst ` set ds
      then map (\<lambda>item. if fst item = d then (fst item, snd item + rrf_score) else item) ds
      else ds @ [(d, 0 + rrf_score)])"

text \<open>One of the two loops \<open>for rank, (doc, score) in enumerate(results)\<close>: \<open>weight\<close> is the
  weight of the list, \<open>key\<close> the metadata key under which the list's own score is kept.\<close>

fun fuse_ranked ::
  "real \<Rightarrow> string \<Rightarrow> nat \<Rightarrow> scored \<Rightarrow> (ref \<times> real) list \<times> store \<Rightarrow> (ref \<times> real) list \<times> store"
where
  "fuse_ranked weight key rank [] st = st"
| "fuse_ranked weight key rank ((d, score) # rest) st =
     fuse_ranked weight key (rank + 1) rest
       (add_score d (weight / real (rrf_constant + rank + 1)) (fst st),
        set_meta (snd st) d key (MFloat score))"

definition doc_scores :: "real \<Rightarrow> scored \<Rightarrow> scored \<Rightarrow> store \<Rightarrow> (ref \<times> real) list \<times> store" where
  "doc_scores semantic_weight semantic_results keyword_results h =
     (let keyword_weight = 1 - semantic_weight
      in fuse_ranked keyword_weight ''bm25_score'' 0 keyword_results
           (fuse_ranked semantic_weight ''semantic_score'' 0 semantic_results ([], h)))"

text \<open>\<open>sorted(..., key=score, reverse=True)\<close> is stable: items of equal score keep their
  order.\<close>

definition sort_by_score_desc :: "('a \<times> real) list \<Rightarrow> ('a \<times> real) list" where
  "sort_by_score_desc items = sort_key (\<lambda>item. - snd item) items"

definition reciprocal_rank_fusion ::
  "scored \<Rightarrow> scored \<Rightarrow> int \<Rightarrow> real \<Rightarrow> store \<Rightarrow> ref list \<times> store"
where
  "reciprocal_rank_fusion semantic_results keyword_results k semantic_weight h =
     (let st = doc_scores semantic_weight semantic_results keyword_results h;
          sorted_docs = sort_by_score_desc (fst st);
          h' = foldl (\<lambda>h item. set_meta h (fst item) ''rrf_score'' (MFloat (snd item)))
                     (snd st) sorted_docs
      in (map fst (py_prefix k sorted_docs), h'))"

text \<open>The score a document has in the dictionary; a document that is in neither list
  has none. \<open>score_in\<close> reads an absent score as 0, the value an entry starts with.\<close>

definition score_in :: "(ref \<times> real) list \<Rightarrow> ref \<Rightarrow> real" where
  "score_in ds d = (case map_of ds d of None \<Rightarrow> 0 | Some x \<Rightarrow> x)"

definition fused_score :: "real \<Rightarrow> scored \<Rightarrow> scored \<Rightarrow> store \<Rightarrow> ref \<Rightarrow> real option" where
  "fused_score semantic_weight semantic_results keyword_results h d =
     map_of (fst (doc_scores semantic_weight semantic_results keyword_results h)) d"

text \<open>
  The score as the specification words it: every position \<open>r\<close> (counted from 0) at which
  the document stands in a list gives it \<open>weight / (60 + r + 1)\<close>, and what the two lists
  give is added up.
\<close>

definition rank_share :: "real \<Rightarrow> scored \<Rightarrow> ref \<Rightarrow> real" where
  "rank_share weight results d =
     (\<Sum>r < length results. if fst (results ! r) = d then weight / (60 + real r + 1) else 0)"

definition spec_rrf_score :: "real \<Rightarrow> scored \<Rightarrow> scored \<Rightarrow> ref \<Rightarrow> real" where
  "spec_rrf_score semantic_weight semantic_results keyword_results d =
     rank_share semantic_weight semantic_results d
       + rank_share (1 - semantic_weight) keyword_results d"







section \<open>Confidence of a response\<close>

text \<open>
  \<open>RAGAgent.process_query\<close> ends with the confidence
  \<open>min(max([doc.metadata.get('retrieval_score', 0.5) for doc in kb_docs]) if kb_docs else 0.5, 1.0)\<close>,
  and its outer handler answers with confidence \<open>0.0\<close>. \<open>max\<close> and \<open>min\<close> raise a
  \<open>TypeError\<close> on a score that is not a number, which the handler catches.
\<close>

fun numeric :: "meta_value \<Rightarrow> real option" where
  "numeric (MFloat r) = Some r"
| "numeric (MInt i) = Some (real_of_int i)"
| "numeric (MStr s) = None"

definition retrieval_score :: "document \<Rightarrow> real option" where
  "retrieval_score doc =
     (case metadata doc ''retrieval_score'' of None \<Rightarrow> Some 0.5 | Some v \<Rightarrow> numeric v)"

text \<open>\<open>max(xs)\<close>; on an empty list Python raises, and every use below is on a non-empty
  list.\<close>

fun py_max :: "real list \<Rightarrow> real" where
  "py_max [] = 0"
| "py_max (x # xs) = fold max xs x"

text \<open>The argument is what the body of the \<open>try\<close> has come to when the response is built:
  the documents retrieved, or the exception raised on the way.\<close>

definition rag_agent_confidence :: "exn + document list \<Rightarrow> real" where
  "rag_agent_confidence outcome =
     (case outcome of
        Inl e \<Rightarrow> 0
      | Inr kb_docs \<Rightarrow>
          if kb_docs = [] then min 0.5 1
          else
            (case those (map retrieval_score kb_docs) of
               None \<Rightarrow> 0
             | Some scores \<Rightarrow> min (py_max scores) 1))"

text \<open>
  \<open>MasterOrchestrator.process_query\<close>: every tool call of the agent run
  (\<open>intermediate_steps\<close>, a tool name with what the tool returned) of the SQL or the RAG
  family becomes a source, and the confidence is \<open>0.9 if sources else 0.5\<close>, or \<open>0.0\<close> from
  the handler. The argument is the outcome of the agent run.
\<close>

record source =
  source_type :: string
  source_tool :: string
  source_content :: string

definition step_source :: "string \<times> string \<Rightarrow> source list" where
  "step_source step =
     (let tool_name = fst step; observation = snd step
      in if tool_name \<in> set [''sql_query'', ''get_sql_schema'', ''table_preview'']
         then [\<lparr>source_type = ''sql'', source_tool = tool_name, source_content = take 200 observation\<rparr>]
         else if tool_name = ''rag_search''
         then [\<lparr>source_type = ''rag'', source_tool = tool_name, source_content = take 200 observation\<rparr>]
         else [])"

definition sources_of :: "(string \<times> string) list \<Rightarrow> source list" where
  "sources_of intermediate_steps = concat (map step_source intermediate_steps)"

definition master_confidence :: "exn + (string \<times> string) list \<Rightarrow> real" where
  "master_confidence outcome =
     (case outcome of
        Inl e \<Rightarrow> 0
      | Inr intermediate_steps \<Rightarrow> if sources_of intermediate_steps \<noteq> [] then 0.9 else 0.5)"

text \<open>The confidence as the specification words it: the greatest retrieval score of the
  contributing documents, clamped to the interval from 0 to 1, and 0.5 when there is no
  score.\<close>

definition spec_confidence :: "real list \<Rightarrow> real" where
  "spec_confidence scores = (if scores = [] then 0.5 else max 0 (min 1 (py_max scores)))"

section \<open>Query enhancer\<close>

text \<open>\<open>s.split()\<close>: the pieces between runs of whitespace; \<open>cur\<close> holds, reversed, the piece
  being read.\<close>

fun split_ws_from :: "string \<Rightarrow> string \<Rightarrow> string list" where
  "split_ws_from cur [] = (if cur = [] then [] else [rev cur])"
| "split_ws_from cur (c # cs) =
     (if isspace c
      then (if cur = [] then split_ws_from [] cs else rev cur # split_ws_from [] cs)
      else split_ws_from (c # cur) cs)"

definition split_ws :: "string \<Rightarrow> string list" where
  "split_ws s = split_ws_from [] s"

text \<open>The two tables of \<open>QueryEnhancer.__init__\<close>.\<close>

definition acronym_dict :: "(string \<times> string) list" where
  "acronym_dict =
     [(''CRM'', ''Customer Relationship Management''),
      (''AI'', ''Artificial Intelligence''),
      (''ML'', ''Machine Learning''),
      (''NLP'', ''Natural Language Processing''),
      (''RAG'', ''Retrieval Augmented Generation''),
      (''LLM'', ''Large Language Model''),
      (''API'', ''Application Programming Interface''),
      (''UI'', ''User Interface''),
      (''UX'', ''User Experience''),
      (''PDF'', ''Portable Document Format''),
      (''CSV'', ''Comma-Separated Values''),
      (''SQL'', ''Structured Query Language''),
      (''RPL'', ''Recognition of Prior Learning''),
      (''NSW'', ''New South Wales'')]"

definition stop_words :: "string list" where
  "stop_words =
     [''the'', ''is'', ''at'', ''which'', ''on'', ''and'', ''a'', ''an'',
      ''as'', ''are'', ''was'', ''were'', ''be'', ''been'', ''being'',
      ''have'', ''has'', ''had'', ''do'', ''does'', ''did'', ''will'',
      ''would'', ''could'', ''should'', ''may'', ''might'', ''must'',
      ''can'', ''shall'', ''to'', ''of'', ''in'', ''for'', ''with'',
      ''by'', ''from'', ''about'', ''into'', ''through'', ''during'',
      ''before'', ''after'', ''above'', ''below'', ''up'', ''down'',
      ''out'', ''off'', ''over'', ''under'', ''again'', ''further'']"

text \<open>\<open>QueryEnhancer.expand_acronyms\<close>.\<close>

definition expand_word :: "string \<Rightarrow> string" where
  "expand_word word =
     (let clean_word = strip_chars ''.,!?;:'' word
      in case map_of acronym_dict (upper clean_word) of
           None \<Rightarrow> word
         | Some expansion \<Rightarrow> clean_word @ '' ('' @ expansion @ '')'')"

definition expand_acronyms :: "string \<Rightarrow> string" where
  "expand_acronyms query = join '' '' (map expand_word (split_ws query))"

text \<open>\<open>QueryEnhancer.remove_stop_words\<close> and \<open>QueryEnhancer.extract_keywords\<close>. The sort by
  length, longest first, is stable; the loop stops as soon as \<open>max_keywords\<close> keywords
  are collected.\<close>

definition remove_stop_words :: "string \<Rightarrow> string" where
  "remove_stop_words query =
     (let filtered = filter (\<lambda>w. w \<notin> set stop_words) (split_ws (lower query))
      in if filtered \<noteq> [] then join '' '' filtered else query)"

fun collect_keywords :: "int \<Rightarrow> string list \<Rightarrow> string list \<Rightarrow> string list \<Rightarrow> string list" where
  "collect_keywords max_keywords seen keywords [] = keywords"
| "collect_keywords max_keywords seen keywords (word # rest) =
     (if lower word \<notin> set seen \<and> length word > 2
      then (if int (length (keywords @ [word])) \<ge> max_keywords then keywords @ [word]
            else collect_keywords max_keywords (lower word # seen) (keywords @ [word]) rest)
      else collect_keywords max_keywords seen keywords rest)"

definition extract_keywords :: "string \<Rightarrow> int \<Rightarrow> string list" where
  "extract_keywords query max_keywords =
     (let cleaned = remove_stop_words query;
          ws = map (strip_chars ''.,!?;:'') (split_ws cleaned);
          sorted_ws = sort_key (\<lambda>w. - int (length w)) ws
      in collect_keywords max_keywords [] [] sorted_ws)"

text \<open>\<open>QueryEnhancer.generate_query_variations\<close>: the call of the language model and the
  cleaning of its answer are inside a \<open>try\<close> whose handler returns the query alone.\<close>

definition variations_prompt :: "string \<Rightarrow> int \<Rightarrow> string" where
  "variations_prompt query num_variations =
     join newline
       [''Generate '' @ str_of_int num_variations @ '' alternative phrasings of the following query.'',
        ''Each variation should:'',
        ''- Capture the same intent'',
        ''- Use different wording or perspective'',
        ''- Be concise and clear'',
        ''- Focus on the core question'',
        [],
        ''Original Query: '' @ dquote @ query @ dquote,
        [],
        ''Generate '' @ str_of_int num_variations @ '' variations (one per line, no numbering):'']"

definition clean_variations :: "string \<Rightarrow> int \<Rightarrow> string list" where
  "clean_variations content num_variations =
     py_prefix num_variations
       (map (\<lambda>v. lstrip ''123456789.-) '' (strip v))
            (filter (\<lambda>v. strip v \<noteq> []) (split_char (CHR 0x0A) (strip content))))"

definition generate_query_variations :: "llm \<Rightarrow> string \<Rightarrow> int \<Rightarrow> string list" where
  "generate_query_variations llm query num_variations =
     (case llm (variations_prompt query num_variations) of
        Inl e \<Rightarrow> [query]
      | Inr content \<Rightarrow>
          [query] @ filter (\<lambda>v. v \<noteq> [] \<and> v \<noteq> query) (clean_variations content num_variations))"

text \<open>\<open>QueryEnhancer._generate_context_aware_query\<close>; \<open>context[-500:]\<close> is the last 500
  characters.\<close>

definition context_prompt :: "string \<Rightarrow> string \<Rightarrow> string" where
  "context_prompt query context =
     join newline
       [''Given the conversation context and current query, generate a standalone version of the query that incorporates relevant context.'',
        [],
        ''Conversation Context:'',
        drop (length context - 500) context,
        [],
        ''Current Query: '' @ dquote @ query @ dquote,
        [],
        ''Standalone Query (one line):'']"

definition generate_context_aware_query :: "llm \<Rightarrow> string \<Rightarrow> string \<Rightarrow> string" where
  "generate_context_aware_query llm query context =
     (case llm (context_prompt query context) of
        Inl e \<Rightarrow> query
      | Inr content \<Rightarrow>
          (let context_aware = lstrip ''123.-) '' (strip content)
           in if context_aware \<noteq> [] then context_aware else query))"

text \<open>\<open>QueryEnhancer.enhance_query\<close> and the dictionary it returns. The context is optional;
  \<open>if context\<close> holds for a context that is given and not empty.\<close>

record enhancement =
  original :: string
  expanded :: string
  query_keywords :: "string list"
  variations :: "string list"
  context_aware :: string
  total_queries :: nat

definition enhance_query :: "llm \<Rightarrow> string \<Rightarrow> string option \<Rightarrow> enhancement" where
  "enhance_query llm query context =
     (let expanded_query = expand_acronyms query;
          kws = extract_keywords query 5;
          vars = generate_query_variations llm query 3;
          context_aware_query =
            (case context of
               None \<Rightarrow> query
             | Some c \<Rightarrow> if c \<noteq> [] then generate_context_aware_query llm query c else query);
          vars' =
            (case context of
               None \<Rightarrow> vars
             | Some c \<Rightarrow>
                 if c \<noteq> [] \<and> context_aware_query \<notin> set vars then vars @ [context_aware_query]
                 else vars)
      in \<lparr>original = query, expanded = expanded_query, query_keywords = kws, variations = vars',
          context_aware = context_aware_query, total_queries = length vars'\<rparr>)"

text \<open>A language model that is out of reach: every call raises.\<close>

definition failing_llm :: llm where
  "failing_llm prompt = Inl (Exception ''Connection error.'')"

section \<open>Document store\<close>

text \<open>
  \<open>HierarchicalVectorStore\<close> keeps two Chroma collections and a dictionary. A parent
  chunk is stored under its identifier, a fresh \<open>str(uuid.uuid4())\<close>; a child chunk is
  stored under \<open>f"{parent_id}_child_{i}"\<close>, which names the parent and the position and
  is modelled as that pair. \<open>drawn\<close> counts the identifiers drawn so far.
\<close>

type_synonym child_id = "string \<times> nat"

record vstore =
  parent_store :: "string \<rightharpoonup> document"
  child_store :: "child_id \<rightharpoonup> document"
  parent_child_map :: "string \<rightharpoonup> child_id list"
  drawn :: nat

definition empty_store :: vstore where
  "empty_store = \<lparr>parent_store = Map.empty, child_store = Map.empty,
                  parent_child_map = Map.empty, drawn = 0\<rparr>"

text \<open>
  What the store calls from outside the repository: the two text splitters, which give
  the chunks of a text or raise; the source of identifiers; and the embedding service,
  which every write to a collection calls on the text written and which raises when it
  cannot be reached.
\<close>

record services =
  parent_splitter :: "string \<Rightarrow> exn + string list"
  child_splitter :: "string \<Rightarrow> exn + string list"
  uuid4 :: "nat \<Rightarrow> string"
  embed :: "string \<Rightarrow> exn + unit"

text \<open>\<open>not s or len(s.strip()) == 0\<close>.\<close>

definition blank :: "string \<Rightarrow> bool" where
  "blank s = (s = [] \<or> length (strip s) = 0)"

text \<open>A \<open>for\<close> loop whose body may raise: the state reached, and the exception if one was
  raised. What the body has written before it raises stays written.\<close>

fun run_loop :: "('st \<Rightarrow> 'x \<Rightarrow> 'st \<times> exn option) \<Rightarrow> 'st \<Rightarrow> 'x list \<Rightarrow> 'st \<times> exn option" where
  "run_loop body st [] = (st, None)"
| "run_loop body st (x # xs) =
     (case snd (body st x) of
        Some e \<Rightarrow> (fst (body st x), Some e)
      | None \<Rightarrow> run_loop body (fst (body st x)) xs)"

text \<open>\<open>HierarchicalVectorStore.add_documents\<close>, from the innermost loop outwards. The
  body of the loop over \<open>enumerate(child_chunks)\<close>; its state is the store with
  \<open>child_ids\<close>.\<close>

definition add_child ::
  "services \<Rightarrow> (string \<rightharpoonup> meta_value) \<Rightarrow> string \<Rightarrow> vstore \<times> child_id list \<Rightarrow> nat \<times> string
     \<Rightarrow> (vstore \<times> child_id list) \<times> exn option"
where
  "add_child sv doc_metadata parent_id st item =
     (let vs = fst st; child_ids = snd st; i = fst item; child_chunk = snd item
      in if blank child_chunk then (st, None)
         else
           (let child_id = (parent_id, i);
                child_doc = \<lparr>page_content = child_chunk,
                             metadata = doc_metadata(''parent_id'' \<mapsto> MStr parent_id,
                                                     ''chunk_index'' \<mapsto> MInt (int i),
                                                     ''chunk_type'' \<mapsto> MStr ''child'')\<rparr>
            in case embed sv child_chunk of
                 Inl e \<Rightarrow> (st, Some e)
               | Inr u \<Rightarrow>
                   ((vs\<lparr>child_store := (child_store vs)(child_id \<mapsto> child_doc)\<rparr>,
                     child_ids @ [child_id]), None)))"

text \<open>The body of the loop over \<open>parent_chunks\<close>; its state is the store with
  \<open>all_parent_ids\<close>. A splitter that raises gives the whole text as the one chunk.\<close>

definition add_parent_chunk ::
  "services \<Rightarrow> (string \<rightharpoonup> meta_value) \<Rightarrow> vstore \<times> string list \<Rightarrow> string
     \<Rightarrow> (vstore \<times> string list) \<times> exn option"
where
  "add_parent_chunk sv doc_metadata st parent_chunk =
     (let vs = fst st; all_parent_ids = snd st
      in if blank parent_chunk then (st, None)
         else
           (let parent_id = uuid4 sv (drawn vs);
                vs1 = vs\<lparr>drawn := drawn vs + 1\<rparr>;
                child_chunks = (case child_splitter sv parent_chunk of
                                  Inl e \<Rightarrow> [parent_chunk]
                                | Inr chunks \<Rightarrow> chunks);
                children = run_loop (add_child sv doc_metadata parent_id) (vs1, [])
                                    (enumerate 0 child_chunks);
                vs2 = fst (fst children);
                child_ids = snd (fst children)
            in case snd children of
                 Some e \<Rightarrow> ((vs2, all_parent_ids), Some e)
               | None \<Rightarrow>
                   if child_ids \<noteq> [] then
                     (let parent_doc = \<lparr>page_content = parent_chunk,
                                         metadata = doc_metadata(''chunk_type'' \<mapsto> MStr ''parent'',
                                                                 ''num_children'' \<mapsto> MInt (int (length child_ids)))\<rparr>
                      in case embed sv parent_chunk of
                           Inl e \<Rightarrow> ((vs2, all_parent_ids), Some e)
                         | Inr u \<Rightarrow>
                             ((vs2\<lparr>parent_store := (parent_store vs2)(parent_id \<mapsto> parent_doc),
                                   parent_child_map := (parent_child_map vs2)(parent_id \<mapsto> child_ids)\<rparr>,
                               all_parent_ids @ [parent_id]), None))
                   else ((vs2, all_parent_ids), None)))"

text \<open>The body of the loop over \<open>documents\<close>.\<close>

definition add_document ::
  "services \<Rightarrow> vstore \<times> string list \<Rightarrow> document \<Rightarrow> (vstore \<times> string list) \<times> exn option"
where
  "add_document sv st doc =
     (if blank (page_content doc) then (st, None)
      else
        (let parent_chunks = (case parent_splitter sv (page_content doc) of
                                Inl e \<Rightarrow> [page_content doc]
                              | Inr chunks \<Rightarrow> chunks)
         in run_loop (add_parent_chunk sv (metadata doc)) st parent_chunks))"

text \<open>The method: the store afterwards, with the list of parent identifiers returned or
  the exception that left the method.\<close>

definition add_documents :: "services \<Rightarrow> vstore \<Rightarrow> document list \<Rightarrow> vstore \<times> (exn + string list)" where
  "add_documents sv vs documents =
     (let r = run_loop (add_document sv) (vs, []) documents
      in case snd r of
           Some e \<Rightarrow> (fst (fst r), Inl e)
         | None \<Rightarrow> (fst (fst r), Inr (snd (fst r))))"

text \<open>A sequence of calls, each with the services as they are at the time of the call:
  the store after the last call, and whether every call has returned.\<close>

fun add_documents_calls :: "vstore \<Rightarrow> (services \<times> document list) list \<Rightarrow> vstore \<times> bool" where
  "add_documents_calls vs [] = (vs, True)"
| "add_documents_calls vs (call # rest) =
     (let r = add_documents (fst call) vs (snd call);
          r' = add_documents_calls (fst r) rest
      in (fst r', (case snd r of Inl e \<Rightarrow> False | Inr ids \<Rightarrow> snd r')))"

text \<open>
  The three properties of a store that the specification names: every stored child
  chunk has, as its \<open>parent_id\<close>, the parent its identifier names, and is not blank; every
  stored child chunk has its parent stored (no orphans); every stored parent chunk has a
  stored child chunk.
\<close>

definition children_named :: "vstore \<Rightarrow> bool" where
  "children_named vs =
     (\<forall>p i c. child_store vs (p, i) = Some c \<longrightarrow>
        metadata c ''parent_id'' = Some (MStr p) \<and> \<not> blank (page_content c))"

definition no_orphans :: "vstore \<Rightarrow> bool" where
  "no_orphans vs = (\<forall>p i. child_store vs (p, i) \<noteq> None \<longrightarrow> parent_store vs p \<noteq> None)"

definition no_childless :: "vstore \<Rightarrow> bool" where
  "no_childless vs = (\<forall>p. parent_store vs p \<noteq> None \<longrightarrow> (\<exists>i. child_store vs (p, i) \<noteq> None))"

text \<open>
  What the loop over the child chunks of the parent \<open>pid\<close> keeps, whether it ends or
  raises. The loop starts in the store \<open>vs0\<close> with no identifier collected; \<open>st\<close> is the
  store it has reached with the identifiers collected so far. It leaves the parent
  collection alone, only adds to the child collection and only under \<open>pid\<close>, and has
  stored a child chunk for every identifier it has collected.
\<close>

definition child_loop_inv :: "string \<Rightarrow> vstore \<Rightarrow> vstore \<times> child_id list \<Rightarrow> bool" where
  "child_loop_inv pid vs0 st =
     (parent_store (fst st) = parent_store vs0
      \<and> (children_named vs0 \<longrightarrow> children_named (fst st))
      \<and> (\<forall>k. child_store vs0 k \<noteq> None \<longrightarrow> child_store (fst st) k \<noteq> None)
      \<and> (\<forall>p j. p \<noteq> pid \<longrightarrow> child_store (fst st) (p, j) = child_store vs0 (p, j))
      \<and> (\<forall>k \<in> set (snd st). fst k = pid \<and> child_store (fst st) k \<noteq> None)
      \<and> (snd st = [] \<longrightarrow> child_store (fst st) = child_store vs0))"

text \<open>Services for concrete runs: every text is one parent chunk, every parent chunk
  has the two child chunks \<open>alpha\<close> and \<open>beta\<close>, and the identifiers are \<open>uuid-0\<close>, \<open>uuid-1\<close>,
  and so on. With \<open>reachable_services\<close> the embedding service answers; with
  \<open>flaky_services\<close> it raises on the text \<open>beta\<close>.\<close>

definition reachable_services :: services where
  "reachable_services =
     \<lparr>parent_splitter = (\<lambda>t. Inr [t]),
      child_splitter = (\<lambda>t. Inr [''alpha'', ''beta'']),
      uuid4 = (\<lambda>n. ''uuid-'' @ str_of_nat n),
      embed = (\<lambda>t. Inr ())\<rparr>"

definition flaky_services :: services where
  "flaky_services =
     \<lparr>parent_splitter = (\<lambda>t. Inr [t]),
      child_splitter = (\<lambda>t. Inr [''alpha'', ''beta'']),
      uuid4 = (\<lambda>n. ''uuid-'' @ str_of_nat n),
      embed = (\<lambda>t. if t = ''beta'' then Inl (Exception ''Connection error.'') else Inr ())\<rparr>"

definition sample_document :: document where
  "sample_document = \<lparr>page_content = ''alpha beta'', metadata = [''source_file'' \<mapsto> MStr ''guide.pdf'']\<rparr>"

section \<open>Facts about the string functions\<close>

lemma code_char_of: "code (char_of (n::nat)) = n mod 256"
  by (simp add: code_def)


lemma code_inj: "code a = code b \<Longrightarrow> a = b"
  by (simp add: code_def)







lemma join_Nil_iff: "list_all (\<lambda>w. w \<noteq> []) ws \<Longrightarrow> (join sep ws = []) = (ws = [])"
  by (induction sep ws rule: join.induct) auto

















section \<open>Facts about the tabular engine\<close>

lemma isspace_upper_char: "isspace (upper_char c) = isspace c"
  by (auto simp: upper_char_def islower_def isspace_def code_char_of)

lemma strip_upper: "strip (upper s) = upper (strip s)"
  by (simp add: strip_def upper_def dropWhile_map rev_map comp_def isspace_upper_char)

lemma code_semicolon: "code CHR '';'' = 59"
  by (simp add: code_def)

lemma upper_char_semicolon: "(upper_char c = CHR '';'') = (c = CHR '';'')"
proof
  assume h: "upper_char c = CHR '';''"
  show "c = CHR '';''"
  proof (cases "islower c")
    case True
    then have "code c - 32 < 256" unfolding islower_def by arith
    with True have "code (upper_char c) = code c - 32"
      by (simp add: upper_char_def code_char_of)
    with h have "code c - 32 = 59" by (simp add: code_semicolon)
    with True show ?thesis unfolding islower_def by arith
  next
    case False
    with h show ?thesis by (simp add: upper_char_def)
  qed
next
  assume "c = CHR '';''"
  then show "upper_char c = CHR '';''"
    by (simp add: upper_char_def islower_def code_semicolon)
qed

lemma endswith_single: "endswith s [c] = (s \<noteq> [] \<and> last s = c)"
  by (cases s rule: rev_cases) (auto simp: endswith_def)

lemma endswith_upper_semicolon: "endswith (upper s) '';'' = endswith s '';''"
  by (cases s rule: rev_cases) (auto simp: endswith_single upper_def upper_char_semicolon)

lemma sublist_drop_prefix:
  assumes "\<forall>c \<in> set a. c \<notin> set needle" and "needle \<noteq> []"
  shows "sublist needle (a @ t) = sublist needle t"
  using assms
proof (induction a)
  case Nil
  then show ?case by simp
next
  case (Cons c a)
  have "\<not> prefix needle (c # a @ t)"
  proof
    assume "prefix needle (c # a @ t)"
    with Cons.prems(2) have "hd needle = c" by (cases needle) auto
    with Cons.prems show False by (cases needle) auto
  qed
  with Cons show ?case by (simp add: sublist_Cons_right)
qed

lemma sublist_dropWhile:
  assumes "\<forall>c \<in> set needle. \<not> P c" and "needle \<noteq> []"
  shows "sublist needle (dropWhile P s) = sublist needle s"
proof -
  have "sublist needle (takeWhile P s @ dropWhile P s) = sublist needle (dropWhile P s)"
    using assms by (intro sublist_drop_prefix) (auto dest: set_takeWhileD)
  then show ?thesis by simp
qed

lemma sublist_strip:
  assumes "\<forall>c \<in> set needle. \<not> isspace c" and "needle \<noteq> []"
  shows "sublist needle (strip s) = sublist needle s"
proof -
  have r: "\<forall>c \<in> set (rev needle). \<not> isspace c" "rev needle \<noteq> []"
    using assms by auto
  have "sublist needle (strip s) = sublist (rev needle) (dropWhile isspace (rev (dropWhile isspace s)))"
    by (simp add: strip_def sublist_rev_left)
  also have "\<dots> = sublist (rev needle) (rev (dropWhile isspace s))"
    by (rule sublist_dropWhile [OF r])
  also have "\<dots> = sublist needle (dropWhile isspace s)"
    by (simp add: sublist_rev)
  also have "\<dots> = sublist needle s"
    by (rule sublist_dropWhile [OF assms])
  finally show ?thesis .
qed

lemma LIMIT_no_space: "\<forall>c \<in> set ''LIMIT''. \<not> isspace c"
  by code_simp

lemma contains_LIMIT_strip: "contains ''LIMIT'' (strip s) = contains ''LIMIT'' s"
  unfolding contains_def by (rule sublist_strip [OF LIMIT_no_space]) simp

lemma semicolon_no_space: "\<not> isspace CHR '';''"
  by code_simp

lemma endswith_strip_semicolon: "endswith s '';'' \<Longrightarrow> endswith (strip s) '';''"
proof -
  assume "endswith s '';''"
  then obtain t where s: "s = t @ '';''"
    by (cases s rule: rev_cases) (auto simp: endswith_single)
  have d: "\<exists>u. dropWhile isspace (t @ '';'') = u @ '';''"
    by (induction t) (auto simp: semicolon_no_space)
  then obtain u where "dropWhile isspace s = u @ '';''" using s by auto
  then have "strip s = u @ '';''"
    by (simp add: strip_def semicolon_no_space)
  then show ?thesis by (simp add: endswith_single)
qed

lemma rstrip_no_op: "\<not> endswith s [c] \<Longrightarrow> rstrip [c] s = s"
  by (cases s rule: rev_cases) (auto simp: endswith_single rstrip_def)

lemma limited_query_eq:
  "limited_query query limit =
     (if \<not> contains ''LIMIT'' (upper query) \<and> \<not> endswith (strip query) '';''
      then query @ '' LIMIT '' @ str_of_int limit else query)"
proof -
  have c: "contains ''LIMIT'' (strip (upper query)) = contains ''LIMIT'' (upper query)"
    by (rule contains_LIMIT_strip)
  have e: "endswith (strip (upper query)) '';'' = endswith (strip query) '';''"
    by (simp add: strip_upper endswith_upper_semicolon)
  have "\<not> endswith (strip query) '';'' \<Longrightarrow> rstrip '';'' query = query"
    using endswith_strip_semicolon [of query] rstrip_no_op [of query "CHR '';''"] by blast
  with c e show ?thesis by (simp add: limited_query_def Let_def)
qed

lemma upper_lower_char: "upper_char (lower_char c) = upper_char c"
proof (cases "isupper c")
  case True
  then have "islower (lower_char c)" and "code (lower_char c) = code c + 32"
    by (simp_all add: lower_char_def isupper_def islower_def code_char_of)
  then have "upper_char (lower_char c) = char_of (code c)"
    by (simp add: upper_char_def)
  moreover from True have "upper_char c = c"
    by (simp add: upper_char_def isupper_def islower_def)
  ultimately show ?thesis by (simp add: code_def)
next
  case False
  then show ?thesis by (simp add: lower_char_def)
qed

lemma upper_lower: "upper (lower s) = upper s"
  by (simp add: upper_def lower_def upper_lower_char)

lemma upper_limit: "upper ''limit'' = ''LIMIT''"
  by code_simp

lemma contains_limit_any_case: "contains ''limit'' (lower s) \<Longrightarrow> contains ''LIMIT'' (upper s)"
proof -
  assume "contains ''limit'' (lower s)"
  then have "sublist (map upper_char ''limit'') (map upper_char (lower s))"
    unfolding contains_def by (rule map_mono_sublist)
  then show ?thesis
    using upper_limit upper_lower [of s] by (simp add: contains_def upper_def)
qed

text \<open>
  Claim C10. \<open>execute_query\<close> hands to the SQL executor the query with
  \<open>LIMIT limit\<close> appended exactly when the uppercased query has no substring \<open>LIMIT\<close>
  and the query, stripped of surrounding whitespace, does not end with a semicolon;
  in every other case the query is executed as it is. So a query that ends with a
  semicolon, or that has the letters \<open>limit\<close> (in any letter case) at any position,
  gets no clause, and its result can have more rows than \<open>limit\<close>: a table of three
  rows, read with limit 2 through \<open>SELECT * FROM t;\<close> or under the name
  \<open>credit_limits\<close>, gives three rows.
\<close>

theorem execute_query_limit_clause:
  assumes "ascii_str query"
  shows "execute_query sqldf eng query limit =
           run_sql sqldf (dataframes eng)
             (if \<not> contains ''LIMIT'' (upper query) \<and> \<not> endswith (strip query) '';''
              then query @ '' LIMIT '' @ str_of_int limit else query)
    \<and> (endswith query '';'' \<or> endswith (strip query) '';'' \<or> contains ''limit'' (lower query)
         \<longrightarrow> execute_query sqldf eng query limit = run_sql sqldf (dataframes eng) query)
    \<and> rows_returned (execute_query select_all_sqldf (one_table ''t'' (id_table 3))
                        ''SELECT * FROM t;'' 2) = 3
    \<and> rows_returned (execute_query select_all_sqldf (one_table ''credit_limits'' (id_table 3))
                        ''SELECT * FROM credit_limits'' 2) = 3"
proof -
  have a: "execute_query sqldf eng query limit =
           run_sql sqldf (dataframes eng)
             (if \<not> contains ''LIMIT'' (upper query) \<and> \<not> endswith (strip query) '';''
              then query @ '' LIMIT '' @ str_of_int limit else query)"
    by (simp only: execute_query_def limited_query_eq)
  have b: "endswith query '';'' \<or> endswith (strip query) '';'' \<or> contains ''limit'' (lower query)
         \<longrightarrow> execute_query sqldf eng query limit = run_sql sqldf (dataframes eng) query"
    using endswith_strip_semicolon [of query] contains_limit_any_case [of query]
    by (auto simp only: a if_False simp_thms)
  have c: "rows_returned (execute_query select_all_sqldf (one_table ''t'' (id_table 3))
                        ''SELECT * FROM t;'' 2) = 3"
    by code_simp
  have d: "rows_returned (execute_query select_all_sqldf (one_table ''credit_limits'' (id_table 3))
                        ''SELECT * FROM credit_limits'' 2) = 3"
    by code_simp
  from a b c d show ?thesis by blast
qed

theorem execute_query_limit_clause_witness:
  "ascii_str ''SELECT * FROM t;''
   \<and> endswith ''SELECT * FROM t;'' '';''
   \<and> execute_query select_all_sqldf (one_table ''t'' (id_table 3)) ''SELECT * FROM t;'' 2
       = run_sql select_all_sqldf [''t'' \<mapsto> id_table 3] ''SELECT * FROM t;''
   \<and> rows_returned (run_sql select_all_sqldf [''t'' \<mapsto> id_table 3] ''SELECT * FROM t;'') = 3"
proof -
  have a: "ascii_str ''SELECT * FROM t;''" by code_simp
  have e: "endswith ''SELECT * FROM t;'' '';''" by code_simp
  have d: "dataframes (one_table ''t'' (id_table 3)) = [''t'' \<mapsto> id_table 3]"
    by (simp add: one_table_def)
  note t = execute_query_limit_clause [OF a, of select_all_sqldf "one_table ''t'' (id_table 3)" 2]
  from t e have 1: "execute_query select_all_sqldf (one_table ''t'' (id_table 3)) ''SELECT * FROM t;'' 2
       = run_sql select_all_sqldf [''t'' \<mapsto> id_table 3] ''SELECT * FROM t;''"
    unfolding d by blast
  from t have "rows_returned (execute_query select_all_sqldf (one_table ''t'' (id_table 3))
                        ''SELECT * FROM t;'' 2) = 3" by blast
  with 1 have 2: "rows_returned (run_sql select_all_sqldf [''t'' \<mapsto> id_table 3] ''SELECT * FROM t;'') = 3"
    by simp
  from a e 1 2 show ?thesis by blast
qed




section \<open>Facts about the query classifier\<close>

lemma query_type_value_sql:
  "(query_type_value qt \<in> set [''structured_sql'', ''hybrid'']) = (qt \<in> set [STRUCTURED_SQL, HYBRID])"
  by (cases qt) simp_all

lemma query_type_value_rag:
  "(query_type_value qt \<in> set [''semantic_rag'', ''hybrid'']) = (qt \<in> set [SEMANTIC_RAG, HYBRID])"
  by (cases qt) simp_all

lemma hybrid_example:
  "keyword_based_classification ''List all providers and explain the application process'' = Some HYBRID"
  by code_simp

text \<open>
  Claim C3. For every query, the keyword tier returns \<open>STRUCTURED_SQL\<close> exactly when at
  least two members of the structured vocabulary and none of the semantic vocabulary
  occur in the lowercased query, \<open>SEMANTIC_RAG\<close> exactly when at least two semantic and no
  structured members occur, \<open>HYBRID\<close> exactly when at least one of each occurs, and
  \<open>None\<close> otherwise; on \<open>None\<close> the answer of \<open>classify_query\<close> is that of the language-model
  tier, and otherwise it is the keyword result. In both cases \<open>requires_sql\<close> and
  \<open>requires_rag\<close> are functions of the \<open>query_type\<close> returned. The query
  \<open>List all providers and explain the application process\<close> is classified \<open>HYBRID\<close>.
\<close>

theorem keyword_classification_thresholds:
  "(keyword_based_classification query = Some STRUCTURED_SQL
      \<longleftrightarrow> sql_matches query \<ge> 2 \<and> rag_matches query = 0)
   \<and> (keyword_based_classification query = Some SEMANTIC_RAG
      \<longleftrightarrow> rag_matches query \<ge> 2 \<and> sql_matches query = 0)
   \<and> (keyword_based_classification query = Some HYBRID
      \<longleftrightarrow> sql_matches query \<ge> 1 \<and> rag_matches query \<ge> 1)
   \<and> (keyword_based_classification query = None
      \<longleftrightarrow> \<not> (sql_matches query \<ge> 2 \<and> rag_matches query = 0)
        \<and> \<not> (rag_matches query \<ge> 2 \<and> sql_matches query = 0)
        \<and> \<not> (sql_matches query \<ge> 1 \<and> rag_matches query \<ge> 1))
   \<and> (keyword_based_classification query = None
      \<longrightarrow> classification_method (classify_query llm query tables) = ''llm''
        \<and> query_type (classify_query llm query tables)
            = query_type_value (llm_based_classification llm query
                                  (case tables of None \<Rightarrow> [] | Some ts \<Rightarrow> ts)))
   \<and> (\<forall>qt. keyword_based_classification query = Some qt
      \<longrightarrow> classification_method (classify_query llm query tables) = ''keyword''
        \<and> query_type (classify_query llm query tables) = query_type_value qt)
   \<and> requires_sql (classify_query llm query tables)
        = (query_type (classify_query llm query tables) \<in> set [''structured_sql'', ''hybrid''])
   \<and> requires_rag (classify_query llm query tables)
        = (query_type (classify_query llm query tables) \<in> set [''semantic_rag'', ''hybrid''])
   \<and> keyword_based_classification ''List all providers and explain the application process''
        = Some HYBRID"
proof -
  have t: "(keyword_based_classification query = Some STRUCTURED_SQL
      \<longleftrightarrow> sql_matches query \<ge> 2 \<and> rag_matches query = 0)
   \<and> (keyword_based_classification query = Some SEMANTIC_RAG
      \<longleftrightarrow> rag_matches query \<ge> 2 \<and> sql_matches query = 0)
   \<and> (keyword_based_classification query = Some HYBRID
      \<longleftrightarrow> sql_matches query \<ge> 1 \<and> rag_matches query \<ge> 1)
   \<and> (keyword_based_classification query = None
      \<longleftrightarrow> \<not> (sql_matches query \<ge> 2 \<and> rag_matches query = 0)
        \<and> \<not> (rag_matches query \<ge> 2 \<and> sql_matches query = 0)
        \<and> \<not> (sql_matches query \<ge> 1 \<and> rag_matches query \<ge> 1))"
    unfolding keyword_based_classification_def by auto
  have r: "\<And>qt m c ts. requires_sql (routing qt m c ts)
               = (query_type (routing qt m c ts) \<in> set [''structured_sql'', ''hybrid''])
             \<and> requires_rag (routing qt m c ts)
               = (query_type (routing qt m c ts) \<in> set [''semantic_rag'', ''hybrid''])"
    unfolding routing_def using query_type_value_sql query_type_value_rag by simp
  have m: "(keyword_based_classification query = None
      \<longrightarrow> classification_method (classify_query llm query tables) = ''llm''
        \<and> query_type (classify_query llm query tables)
            = query_type_value (llm_based_classification llm query
                                  (case tables of None \<Rightarrow> [] | Some ts \<Rightarrow> ts)))
   \<and> (\<forall>qt. keyword_based_classification query = Some qt
      \<longrightarrow> classification_method (classify_query llm query tables) = ''keyword''
        \<and> query_type (classify_query llm query tables) = query_type_value qt)"
    by (simp add: classify_query_def routing_def Let_def)
  have q: "requires_sql (classify_query llm query tables)
        = (query_type (classify_query llm query tables) \<in> set [''structured_sql'', ''hybrid''])
   \<and> requires_rag (classify_query llm query tables)
        = (query_type (classify_query llm query tables) \<in> set [''semantic_rag'', ''hybrid''])"
    unfolding classify_query_def Let_def using r by (simp split: option.split)
  from t m q hybrid_example show ?thesis by blast
qed

theorem keyword_classification_thresholds_witness:
  "keyword_based_classification ''How do I add a lead in the CRM?'' = None
   \<and> classification_method (classify_query (\<lambda>p. Inl (Exception ''timeout''))
         ''How do I add a lead in the CRM?'' None) = ''llm''
   \<and> query_type (classify_query (\<lambda>p. Inl (Exception ''timeout''))
         ''How do I add a lead in the CRM?'' None) = ''semantic_rag''
   \<and> keyword_based_classification ''How many providers are in NSW?'' = Some STRUCTURED_SQL
   \<and> classification_method (classify_query (\<lambda>p. Inl (Exception ''timeout''))
         ''How many providers are in NSW?'' None) = ''keyword''
   \<and> query_type (classify_query (\<lambda>p. Inl (Exception ''timeout''))
         ''How many providers are in NSW?'' None) = ''structured_sql''"
proof -
  let ?llm = "\<lambda>p :: string. (Inl (Exception ''timeout'') :: exn + string)"
  have n: "keyword_based_classification ''How do I add a lead in the CRM?'' = None"
    by code_simp
  have s: "keyword_based_classification ''How many providers are in NSW?'' = Some STRUCTURED_SQL"
    by code_simp
  have l: "query_type_value (llm_based_classification ?llm ''How do I add a lead in the CRM?''
             (case None of None \<Rightarrow> [] | Some ts \<Rightarrow> ts)) = ''semantic_rag''"
    by (simp add: llm_based_classification_def)
  note a = keyword_classification_thresholds [of "''How do I add a lead in the CRM?''" ?llm None]
  note b = keyword_classification_thresholds [of "''How many providers are in NSW?''" ?llm None]
  from a n l have 1: "classification_method (classify_query ?llm
         ''How do I add a lead in the CRM?'' None) = ''llm''
   \<and> query_type (classify_query ?llm ''How do I add a lead in the CRM?'' None) = ''semantic_rag''"
    by simp
  from b s have 2: "classification_method (classify_query ?llm
         ''How many providers are in NSW?'' None) = ''keyword''
   \<and> query_type (classify_query ?llm ''How many providers are in NSW?'' None) = ''structured_sql''"
    by simp
  from n s 1 2 show ?thesis by blast
qed

section \<open>Facts about loading tables\<close>

lemma load_one_file_keeps:
  assumes "dataframes (fst st) name = Some df"
  shows "dataframes (fst (load_one_file w d st filename)) name = Some df
       \<and> table_schemas (fst (load_one_file w d st filename)) name = table_schemas (fst st) name"
  using assms by (auto simp: load_one_file_def Let_def split: option.splits)

lemma foldl_load_one_file_keeps:
  assumes "dataframes (fst st) name = Some df"
  shows "dataframes (fst (foldl (load_one_file w d) st filenames)) name = Some df
       \<and> table_schemas (fst (foldl (load_one_file w d) st filenames)) name = table_schemas (fst st) name"
  using assms
proof (induction filenames arbitrary: st)
  case Nil
  then show ?case by simp
next
  case (Cons f fs)
  from load_one_file_keeps [OF Cons.prems, of w d f]
  have 1: "dataframes (fst (load_one_file w d st f)) name = Some df"
    and 2: "table_schemas (fst (load_one_file w d st f)) name = table_schemas (fst st) name"
    by simp_all
  from Cons.IH [OF 1] 2 show ?case by simp
qed

lemma load_directories_keeps:
  assumes "dataframes (fst st) name = Some df"
  shows "dataframes (fst (load_directories w dirs st)) name = Some df
       \<and> table_schemas (fst (load_directories w dirs st)) name = table_schemas (fst st) name"
  using assms
proof (induction dirs arbitrary: st)
  case Nil
  then show ?case by simp
next
  case (Cons d ds)
  show ?case
  proof (cases "dir_exists w d")
    case False
    with Cons show ?thesis by simp
  next
    case True
    show ?thesis
    proof (cases "listdir w d")
      case (Inl e)
      with True Cons.prems show ?thesis by simp
    next
      case (Inr filenames)
      let ?st' = "foldl (load_one_file w d) (fst st, 0) filenames"
      have k: "dataframes (fst ?st') name = Some df
             \<and> table_schemas (fst ?st') name = table_schemas (fst st) name"
        using foldl_load_one_file_keeps [of "(fst st, 0)" name df w d filenames] Cons.prems
        by simp
      then have "dataframes (fst (fst ?st', snd st + snd ?st')) name = Some df" by simp
      from Cons.IH [OF this] k True Inr show ?thesis by (simp add: Let_def)
    qed
  qed
qed

text \<open>
  Claim C6, as stated, fails for \<open>add_csv_file\<close>: with a table \<open>providers\<close> of three rows
  loaded, adding \<open>providers.csv\<close>, whose derived table name is \<open>providers\<close> and which reads
  as two rows, replaces the table.
\<close>

theorem add_csv_file_overwrites_counterexample:
  "sanitize_table_name (basename ''uploaded_docs/providers.csv'') = ''providers''
   \<and> dataframes (one_table ''providers'' (id_table 3)) ''providers'' = Some (id_table 3)
   \<and> dataframes (fst (add_csv_file (files_world ''uploaded_docs'' [(''providers.csv'', id_table 2)]) (one_table ''providers'' (id_table 3))
                        ''uploaded_docs/providers.csv'' None)) ''providers''
       = Some (id_table 2)
   \<and> id_table 2 \<noteq> id_table 3"
  by code_simp

text \<open>
  Claim C6, amended. A directory scan (\<open>load_all_csv_files\<close>) never changes a table that
  is already in the engine's table map: its frame and its schema are the same afterwards,
  whatever the directories hold. \<open>add_csv_file\<close> makes no such check: when the file cannot
  be read the engine is unchanged and \<open>False\<close> is returned, and when it reads as a frame
  that frame and its schema are stored under the table name, replacing any table of that
  name, while every other table is unchanged. The knowledge-base loader skips a file whose
  table exists unless a forced reload was asked for.
\<close>

theorem duplicate_table_policy:
  "(\<forall>name df. dataframes eng name = Some df \<longrightarrow>
       dataframes (fst (load_all_csv_files w dirs eng)) name = Some df
     \<and> table_schemas (fst (load_all_csv_files w dirs eng)) name = table_schemas eng name)
   \<and> (read_csv_with_encoding (read_csv w) file_path = None \<longrightarrow>
       add_csv_file w eng file_path (Some table) = (eng, False))
   \<and> (\<forall>df. read_csv_with_encoding (read_csv w) file_path = Some df \<and> table \<noteq> [] \<longrightarrow>
       snd (add_csv_file w eng file_path (Some table))
     \<and> dataframes (fst (add_csv_file w eng file_path (Some table))) table = Some df
     \<and> table_schemas (fst (add_csv_file w eng file_path (Some table))) table
         = Some (get_schema (render w) df)
     \<and> (\<forall>other. other \<noteq> table \<longrightarrow>
           dataframes (fst (add_csv_file w eng file_path (Some table))) other = dataframes eng other
         \<and> table_schemas (fst (add_csv_file w eng file_path (Some table))) other
             = table_schemas eng other))
   \<and> (dataframes eng (sanitize_table_name (stem (basename file_path))) \<noteq> None \<longrightarrow>
       kb_load_csv w False eng file_path = (eng, False))"
proof -
  have a: "\<forall>name df. dataframes eng name = Some df \<longrightarrow>
       dataframes (fst (load_all_csv_files w dirs eng)) name = Some df
     \<and> table_schemas (fst (load_all_csv_files w dirs eng)) name = table_schemas eng name"
    using load_directories_keeps [of "(eng, 0)" _ _ w dirs]
    by (simp add: load_all_csv_files_def)
  have b: "read_csv_with_encoding (read_csv w) file_path = None \<longrightarrow>
       add_csv_file w eng file_path (Some table) = (eng, False)"
    by (simp add: add_csv_file_def Let_def)
  have c: "\<forall>df. read_csv_with_encoding (read_csv w) file_path = Some df \<and> table \<noteq> [] \<longrightarrow>
       snd (add_csv_file w eng file_path (Some table))
     \<and> dataframes (fst (add_csv_file w eng file_path (Some table))) table = Some df
     \<and> table_schemas (fst (add_csv_file w eng file_path (Some table))) table
         = Some (get_schema (render w) df)
     \<and> (\<forall>other. other \<noteq> table \<longrightarrow>
           dataframes (fst (add_csv_file w eng file_path (Some table))) other = dataframes eng other
         \<and> table_schemas (fst (add_csv_file w eng file_path (Some table))) other
             = table_schemas eng other)"
    by (simp add: add_csv_file_def Let_def)
  have d: "dataframes eng (sanitize_table_name (stem (basename file_path))) \<noteq> None \<longrightarrow>
       kb_load_csv w False eng file_path = (eng, False)"
    by (simp add: kb_load_csv_def Let_def)
  from a b c d show ?thesis by blast
qed


theorem duplicate_table_policy_witness:
  "dataframes (one_table ''providers'' (id_table 3)) ''providers'' = Some (id_table 3)
   \<and> dataframes (fst (load_all_csv_files (files_world ''uploaded_docs'' [(''providers.csv'', id_table 2)])
                        [''uploaded_docs''] (one_table ''providers'' (id_table 3)))) ''providers''
       = Some (id_table 3)
   \<and> add_csv_file (files_world ''uploaded_docs'' [(''providers.csv'', id_table 2)])
         (one_table ''providers'' (id_table 3)) ''uploaded_docs/absent.csv'' (Some ''providers'')
       = (one_table ''providers'' (id_table 3), False)
   \<and> dataframes (fst (add_csv_file (files_world ''uploaded_docs'' [(''providers.csv'', id_table 2)])
         (one_table ''providers'' (id_table 3)) ''uploaded_docs/providers.csv'' (Some ''providers'')))
         ''providers'' = Some (id_table 2)
   \<and> kb_load_csv (files_world ''uploaded_docs'' [(''providers.csv'', id_table 2)]) False
         (one_table ''providers'' (id_table 3)) ''uploaded_docs/providers.csv''
       = (one_table ''providers'' (id_table 3), False)"
proof -
  let ?w = "files_world ''uploaded_docs'' [(''providers.csv'', id_table 2)]"
  let ?eng = "one_table ''providers'' (id_table 3)"
  have h1: "dataframes ?eng ''providers'' = Some (id_table 3)"
    by code_simp
  have h2: "read_csv_with_encoding (read_csv ?w) ''uploaded_docs/absent.csv'' = None"
    by code_simp
  have h3: "read_csv_with_encoding (read_csv ?w) ''uploaded_docs/providers.csv'' = Some (id_table 2)"
    by code_simp
  have h4: "dataframes ?eng (sanitize_table_name (stem (basename ''uploaded_docs/providers.csv''))) \<noteq> None"
    by code_simp
  have h5: "''providers'' \<noteq> []" by simp
  note a = duplicate_table_policy [of ?eng ?w "[''uploaded_docs'']" "''uploaded_docs/absent.csv''" "''providers''"]
  note b = duplicate_table_policy [of ?eng ?w "[''uploaded_docs'']" "''uploaded_docs/providers.csv''" "''providers''"]
  from a h1 have 1: "dataframes (fst (load_all_csv_files ?w [''uploaded_docs''] ?eng)) ''providers''
       = Some (id_table 3)" by blast
  from a h2 have 2: "add_csv_file ?w ?eng ''uploaded_docs/absent.csv'' (Some ''providers'') = (?eng, False)"
    by blast
  from b h3 h5 have 3: "dataframes (fst (add_csv_file ?w ?eng ''uploaded_docs/providers.csv''
         (Some ''providers''))) ''providers'' = Some (id_table 2)" by blast
  from b h4 have 4: "kb_load_csv ?w False ?eng ''uploaded_docs/providers.csv'' = (?eng, False)"
    by blast
  from h1 1 2 3 4 show ?thesis by blast
qed

section \<open>Facts about rank fusion\<close>

lemma map_of_bump:
  "map_of (map (\<lambda>item. if fst item = d then (fst item, snd item + s) else item) ds) d' =
     (if d' = d then map_option (\<lambda>x. x + s) (map_of ds d) else map_of ds d')"
  by (induction ds) auto

lemma map_of_add_score:
  "map_of (add_score d s ds) d' =
     (if d' = d then Some (score_in ds d + s) else map_of ds d')"
proof (cases "d \<in> fst ` set ds")
  case True
  then obtain x where "map_of ds d = Some x"
    by (metis map_of_eq_None_iff not_Some_eq)
  with True show ?thesis by (simp add: add_score_def map_of_bump score_in_def)
next
  case False
  then have "map_of ds d = None" by (simp add: map_of_eq_None_iff)
  with False show ?thesis by (auto simp: add_score_def score_in_def map_add_def split: option.splits)
qed

lemma keys_add_score: "fst ` set (add_score d s ds) = insert d (fst ` set ds)"
proof (cases "d \<in> fst ` set ds")
  case True
  have "map fst (map (\<lambda>item. if fst item = d then (fst item, snd item + s) else item) ds) = map fst ds"
    by (induction ds) auto
  then have "fst ` set (map (\<lambda>item. if fst item = d then (fst item, snd item + s) else item) ds)
               = fst ` set ds"
    by (metis set_map)
  with True show ?thesis by (auto simp: add_score_def)
next
  case False
  then show ?thesis by (auto simp: add_score_def)
qed

lemma score_in_Nil: "score_in [] d = 0"
  by (simp add: score_in_def)

lemma score_in_add_score:
  "score_in (add_score d s ds) d' = score_in ds d' + (if d' = d then s else 0)"
  by (simp add: score_in_def map_of_add_score)

lemma keys_fuse_ranked:
  "fst ` set (fst (fuse_ranked w key rank xs st)) = fst ` set (fst st) \<union> fst ` set xs"
  by (induction w key rank xs st rule: fuse_ranked.induct) (auto simp: keys_add_score)

lemma score_in_fuse_ranked:
  "score_in (fst (fuse_ranked w key rank xs st)) d =
     score_in (fst st) d
       + (\<Sum>r < length xs. if fst (xs ! r) = d then w / (60 + real (rank + r) + 1) else 0)"
proof (induction w key rank xs st rule: fuse_ranked.induct)
  case (1 weight key rank st)
  then show ?case by simp
next
  case (2 weight key rank d' score rest st)
  let ?st' = "(add_score d' (weight / real (rrf_constant + rank + 1)) (fst st),
               set_meta (snd st) d' key (MFloat score))"
  let ?f = "\<lambda>r. if fst (((d', score) # rest) ! r) = d
                 then weight / (60 + real (rank + r) + 1) else 0"
  have "score_in (fst (fuse_ranked weight key rank ((d', score) # rest) st)) d
          = score_in (fst (fuse_ranked weight key (rank + 1) rest ?st')) d"
    by simp
  also have "\<dots> = score_in (fst ?st') d
       + (\<Sum>r < length rest. if fst (rest ! r) = d
                                then weight / (60 + real (rank + 1 + r) + 1) else 0)"
    by (rule 2)
  also have "score_in (fst ?st') d = score_in (fst st) d + ?f 0"
    by (simp add: score_in_add_score rrf_constant_def add.commute)
  also have "(\<Sum>r < length rest. if fst (rest ! r) = d
                                then weight / (60 + real (rank + 1 + r) + 1) else 0)
               = (\<Sum>r < length rest. ?f (Suc r))"
    by (rule sum.cong) (simp_all add: add.commute add.left_commute)
  also have "score_in (fst st) d + ?f 0 + (\<Sum>r < length rest. ?f (Suc r))
               = score_in (fst st) d + (\<Sum>r < length ((d', score) # rest). ?f r)"
    by (simp only: sum.lessThan_Suc_shift length_Cons add.assoc)
  finally show ?case .
qed

lemma score_in_fuse_ranked0:
  "score_in (fst (fuse_ranked w key 0 xs st)) d = score_in (fst st) d + rank_share w xs d"
  by (simp add: score_in_fuse_ranked rank_share_def cong: if_cong)

lemma map_of_keys: "map_of ds d = (if d \<in> fst ` set ds then Some (score_in ds d) else None)"
  by (auto simp: score_in_def map_of_eq_None_iff split: option.splits)

lemma fused_score_eq:
  "fused_score sw sem kw h d =
     (if d \<in> fst ` set sem \<union> fst ` set kw then Some (spec_rrf_score sw sem kw d) else None)"
proof -
  let ?st1 = "fuse_ranked sw ''semantic_score'' 0 sem ([], h)"
  let ?st2 = "fuse_ranked (1 - sw) ''bm25_score'' 0 kw ?st1"
  have k: "fst ` set (fst ?st2) = fst ` set sem \<union> fst ` set kw"
    by (simp add: keys_fuse_ranked)
  have s: "score_in (fst ?st2) d = spec_rrf_score sw sem kw d"
    by (simp add: score_in_fuse_ranked0 spec_rrf_score_def score_in_Nil)
  have "fused_score sw sem kw h d = map_of (fst ?st2) d"
    by (simp add: fused_score_def doc_scores_def Let_def)
  also have "\<dots> = (if d \<in> fst ` set (fst ?st2) then Some (score_in (fst ?st2) d) else None)"
    by (rule map_of_keys)
  finally show ?thesis by (simp only: k s)
qed

lemma example_scores:
  assumes "distinct [a, b, c, e]"
  shows "fst (doc_scores 0.6 [(a, s1), (b, s2), (c, s3)] [(b, t1), (e, t2)] h)
           = [(a, 0.6 / 61), (b, 0.6 / 62 + 0.4 / 61), (c, 0.6 / 63), (e, 0.4 / 62)]"
  using assms by (simp add: doc_scores_def add_score_def rrf_constant_def)

lemma example_order:
  assumes "distinct [a, b, c, e]"
  shows "fst (reciprocal_rank_fusion [(a, s1), (b, s2), (c, s3)] [(b, t1), (e, t2)] 10 0.6 h)
           = [b, a, c, e]"
  using example_scores [OF assms, of s1 s2 s3 t1 t2 h]
  by (simp add: reciprocal_rank_fusion_def Let_def sort_by_score_desc_def py_prefix_def)

text \<open>
  Claim C1. For every pair of result lists, the score that reciprocal rank fusion gives
  a document is the sum, over every position \<open>r\<close> (from 0) at which the document stands
  in the semantic list, of \<open>semantic_weight / (60 + r + 1)\<close>, plus the sum, over its
  positions in the keyword list, of \<open>(1 - semantic_weight) / (60 + r + 1)\<close>; a document in
  neither list has no score. For semantic results \<open>[A, B, C]\<close> and keyword results
  \<open>[B, D]\<close> of four different documents and weight 0.6, the score of \<open>B\<close> is
  \<open>0.6 / 62 + 0.4 / 61\<close>, strictly above the scores of \<open>A\<close>, \<open>C\<close> and \<open>D\<close>, and the fused
  ranking is \<open>[B, A, C, D]\<close>.
\<close>

theorem reciprocal_rank_fusion_scores:
  "fused_score sw sem kw h d =
     (if d \<in> fst ` set sem \<union> fst ` set kw then Some (spec_rrf_score sw sem kw d) else None)
   \<and> (distinct [a, b, c, e] \<longrightarrow>
        score_in (fst (doc_scores 0.6 [(a, s1), (b, s2), (c, s3)] [(b, t1), (e, t2)] h)) b
          = 0.6 / 62 + 0.4 / 61
      \<and> score_in (fst (doc_scores 0.6 [(a, s1), (b, s2), (c, s3)] [(b, t1), (e, t2)] h)) a
          < score_in (fst (doc_scores 0.6 [(a, s1), (b, s2), (c, s3)] [(b, t1), (e, t2)] h)) b
      \<and> score_in (fst (doc_scores 0.6 [(a, s1), (b, s2), (c, s3)] [(b, t1), (e, t2)] h)) c
          < score_in (fst (doc_scores 0.6 [(a, s1), (b, s2), (c, s3)] [(b, t1), (e, t2)] h)) b
      \<and> score_in (fst (doc_scores 0.6 [(a, s1), (b, s2), (c, s3)] [(b, t1), (e, t2)] h)) e
          < score_in (fst (doc_scores 0.6 [(a, s1), (b, s2), (c, s3)] [(b, t1), (e, t2)] h)) b
      \<and> fst (reciprocal_rank_fusion [(a, s1), (b, s2), (c, s3)] [(b, t1), (e, t2)] 10 0.6 h)
          = [b, a, c, e])"
proof -
  have g: "fused_score sw sem kw h d =
     (if d \<in> fst ` set sem \<union> fst ` set kw then Some (spec_rrf_score sw sem kw d) else None)"
    by (rule fused_score_eq)
  have x: "distinct [a, b, c, e] \<longrightarrow>
        score_in (fst (doc_scores 0.6 [(a, s1), (b, s2), (c, s3)] [(b, t1), (e, t2)] h)) b
          = 0.6 / 62 + 0.4 / 61
      \<and> score_in (fst (doc_scores 0.6 [(a, s1), (b, s2), (c, s3)] [(b, t1), (e, t2)] h)) a
          < score_in (fst (doc_scores 0.6 [(a, s1), (b, s2), (c, s3)] [(b, t1), (e, t2)] h)) b
      \<and> score_in (fst (doc_scores 0.6 [(a, s1), (b, s2), (c, s3)] [(b, t1), (e, t2)] h)) c
          < score_in (fst (doc_scores 0.6 [(a, s1), (b, s2), (c, s3)] [(b, t1), (e, t2)] h)) b
      \<and> score_in (fst (doc_scores 0.6 [(a, s1), (b, s2), (c, s3)] [(b, t1), (e, t2)] h)) e
          < score_in (fst (doc_scores 0.6 [(a, s1), (b, s2), (c, s3)] [(b, t1), (e, t2)] h)) b
      \<and> fst (reciprocal_rank_fusion [(a, s1), (b, s2), (c, s3)] [(b, t1), (e, t2)] 10 0.6 h)
          = [b, a, c, e]"
  proof
    assume d: "distinct [a, b, c, e]"
    note sc = example_scores [OF d, of s1 s2 s3 t1 t2 h]
    note ord = example_order [OF d, of s1 s2 s3 t1 t2 h]
    from d show "score_in (fst (doc_scores 0.6 [(a, s1), (b, s2), (c, s3)] [(b, t1), (e, t2)] h)) b
          = 0.6 / 62 + 0.4 / 61
      \<and> score_in (fst (doc_scores 0.6 [(a, s1), (b, s2), (c, s3)] [(b, t1), (e, t2)] h)) a
          < score_in (fst (doc_scores 0.6 [(a, s1), (b, s2), (c, s3)] [(b, t1), (e, t2)] h)) b
      \<and> score_in (fst (doc_scores 0.6 [(a, s1), (b, s2), (c, s3)] [(b, t1), (e, t2)] h)) c
          < score_in (fst (doc_scores 0.6 [(a, s1), (b, s2), (c, s3)] [(b, t1), (e, t2)] h)) b
      \<and> score_in (fst (doc_scores 0.6 [(a, s1), (b, s2), (c, s3)] [(b, t1), (e, t2)] h)) e
          < score_in (fst (doc_scores 0.6 [(a, s1), (b, s2), (c, s3)] [(b, t1), (e, t2)] h)) b
      \<and> fst (reciprocal_rank_fusion [(a, s1), (b, s2), (c, s3)] [(b, t1), (e, t2)] 10 0.6 h)
          = [b, a, c, e]"
      unfolding sc ord by (simp add: score_in_def)
  qed
  from g x show ?thesis by blast
qed

theorem reciprocal_rank_fusion_scores_witness:
  "distinct [0::nat, 1, 2, 3]
   \<and> fused_score 0.6 [(0, 0.9), (1, 0.8), (2, 0.7)] [(1, 4.2), (3, 1.5)] Map.empty 1
       = Some (spec_rrf_score 0.6 [(0, 0.9), (1, 0.8), (2, 0.7)] [(1, 4.2), (3, 1.5)] 1)
   \<and> spec_rrf_score 0.6 [(0, 0.9), (1, 0.8), (2, 0.7)] [(1, 4.2), (3, 1.5)] 1 = 0.6 / 62 + 0.4 / 61
   \<and> score_in (fst (doc_scores 0.6 [(0, 0.9), (1, 0.8), (2, 0.7)] [(1, 4.2), (3, 1.5)] Map.empty)) 0
       < score_in (fst (doc_scores 0.6 [(0, 0.9), (1, 0.8), (2, 0.7)] [(1, 4.2), (3, 1.5)] Map.empty)) 1
   \<and> fst (reciprocal_rank_fusion [(0, 0.9), (1, 0.8), (2, 0.7)] [(1, 4.2), (3, 1.5)] 10 0.6 Map.empty)
       = [1, 0, 2, 3]"
proof -
  have d: "distinct [0::nat, 1, 2, 3]" by simp
  note t = reciprocal_rank_fusion_scores [of "0.6" "[(0, 0.9), (1, 0.8), (2, 0.7)]"
      "[(1, 4.2), (3, 1.5)]" Map.empty 1 0 1 2 3 "0.9" "0.8" "0.7" "4.2" "1.5"]
  have m: "(1::nat) \<in> fst ` set [(0::nat, 0.9::real), (1, 0.8), (2, 0.7)] \<union> fst ` set [(1::nat, 4.2::real), (3, 1.5)]"
    by simp
  from t m have 1: "fused_score 0.6 [(0, 0.9), (1, 0.8), (2, 0.7)] [(1, 4.2), (3, 1.5)] Map.empty 1
       = Some (spec_rrf_score 0.6 [(0, 0.9), (1, 0.8), (2, 0.7)] [(1, 4.2), (3, 1.5)] 1)"
    by simp
  have 2: "spec_rrf_score 0.6 [(0, 0.9), (1, 0.8), (2, 0.7)] [(1, 4.2), (3, 1.5)] 1 = 0.6 / 62 + 0.4 / 61"
    by (simp add: spec_rrf_score_def rank_share_def lessThan_Suc numeral_3_eq_3 numeral_2_eq_2)
  from t d have 3: "score_in (fst (doc_scores 0.6 [(0, 0.9), (1, 0.8), (2, 0.7)] [(1, 4.2), (3, 1.5)] Map.empty)) 0
       < score_in (fst (doc_scores 0.6 [(0, 0.9), (1, 0.8), (2, 0.7)] [(1, 4.2), (3, 1.5)] Map.empty)) 1
   \<and> fst (reciprocal_rank_fusion [(0, 0.9), (1, 0.8), (2, 0.7)] [(1, 4.2), (3, 1.5)] 10 0.6 Map.empty)
       = [1, 0, 2, 3]"
    by blast
  from d 1 2 3 show ?thesis by blast
qed

section \<open>Facts about the hybrid search\<close>









section \<open>Facts about the confidence of a response\<close>

lemma fold_max_ge: "(x::real) \<le> fold max xs x"
proof (induction xs arbitrary: x)
  case Nil
  then show ?case by simp
next
  case (Cons y ys)
  have "x \<le> max y x" by simp
  also have "\<dots> \<le> fold max ys (max y x)" by (rule Cons.IH)
  finally show ?case by simp
qed

lemma py_max_Max: "py_max scores = (if scores = [] then 0 else Max (set scores))"
proof (cases scores)
  case Nil
  then show ?thesis by simp
next
  case (Cons a list)
  then show ?thesis using Max.set_eq_fold [of a list] by simp
qed

lemma those_length: "those xs = Some ys \<Longrightarrow> length ys = length xs"
  by (induction xs arbitrary: ys) (auto split: option.splits)

lemma sources_of_empty:
  "(sources_of steps \<noteq> []) =
     list_ex (\<lambda>step. fst step \<in> set [''sql_query'', ''get_sql_schema'', ''table_preview'', ''rag_search''])
             steps"
  by (induction steps) (auto simp: sources_of_def step_source_def Let_def)

text \<open>
  Claim C9, as stated, fails: a run of the master orchestrator whose only tool call is a
  SQL query has no retrieval score, and its confidence is 0.9 where the claim gives 0.5;
  and the answer of the error path has confidence 0.
\<close>

theorem confidence_counterexample:
  "master_confidence (Inr [(''sql_query'', ''Query Results (1 rows)'')]) = 0.9
   \<and> spec_confidence [] = 0.5
   \<and> master_confidence (Inr [(''sql_query'', ''Query Results (1 rows)'')]) \<noteq> spec_confidence []
   \<and> rag_agent_confidence (Inl (Exception ''timeout'')) = 0"
  by (simp add: master_confidence_def sources_of_def step_source_def spec_confidence_def
      rag_agent_confidence_def)

text \<open>
  Claim C9, amended. The retrieval agent (\<open>RAGAgent\<close>) answers with the greatest
  retrieval score of the documents retrieved (0.5 standing for a document without one),
  capped at 1 and not raised to 0, which is the clamped maximum of the claim whenever no
  score is negative, and with 0.5 when no document was retrieved. The master orchestrator
  answers with 0.9 when at least one SQL or RAG tool call was made and with 0.5 otherwise.
  Both answer with 0 on the error path.
\<close>

theorem confidence_scores:
  "rag_agent_confidence (Inl e) = 0
   \<and> rag_agent_confidence (Inr []) = 0.5
   \<and> (kb_docs \<noteq> [] \<and> those (map retrieval_score kb_docs) = Some scores \<longrightarrow>
        rag_agent_confidence (Inr kb_docs) = min (Max (set scores)) 1
      \<and> (list_all (\<lambda>s. 0 \<le> s) scores \<longrightarrow>
           rag_agent_confidence (Inr kb_docs) = spec_confidence scores))
   \<and> master_confidence (Inl e) = 0
   \<and> master_confidence (Inr steps) =
       (if list_ex (\<lambda>step. fst step \<in> set [''sql_query'', ''get_sql_schema'', ''table_preview'',
                                             ''rag_search'']) steps
        then 0.9 else 0.5)"
proof -
  have a: "rag_agent_confidence (Inl e) = 0 \<and> rag_agent_confidence (Inr []) = 0.5
           \<and> master_confidence (Inl e) = 0"
    by (simp add: rag_agent_confidence_def master_confidence_def)
  have b: "kb_docs \<noteq> [] \<and> those (map retrieval_score kb_docs) = Some scores \<longrightarrow>
        rag_agent_confidence (Inr kb_docs) = min (Max (set scores)) 1
      \<and> (list_all (\<lambda>s. 0 \<le> s) scores \<longrightarrow>
           rag_agent_confidence (Inr kb_docs) = spec_confidence scores)"
  proof
    assume p: "kb_docs \<noteq> [] \<and> those (map retrieval_score kb_docs) = Some scores"
    then have "length scores = length kb_docs" using those_length by fastforce
    with p have ne: "scores \<noteq> []" by auto
    from p have r: "rag_agent_confidence (Inr kb_docs) = min (py_max scores) 1"
      by (simp add: rag_agent_confidence_def)
    have m: "list_all (\<lambda>s. 0 \<le> s) scores \<longrightarrow> 0 \<le> py_max scores"
    proof
      assume "list_all (\<lambda>s. 0 \<le> s) scores"
      with ne obtain x xs where "scores = x # xs" and "0 \<le> x" by (cases scores) auto
      then show "0 \<le> py_max scores" using fold_max_ge [of x xs] by simp
    qed
    have s1: "rag_agent_confidence (Inr kb_docs) = min (Max (set scores)) 1"
      using r ne by (simp only: py_max_Max if_False)
    have s2: "list_all (\<lambda>s. 0 \<le> s) scores \<longrightarrow>
           rag_agent_confidence (Inr kb_docs) = spec_confidence scores"
    proof
      assume "list_all (\<lambda>s. 0 \<le> s) scores"
      with m have "0 \<le> py_max scores" by blast
      then have "max 0 (min 1 (py_max scores)) = min (py_max scores) 1"
        by (simp add: min_def max_def)
      with r ne show "rag_agent_confidence (Inr kb_docs) = spec_confidence scores"
        by (simp add: spec_confidence_def)
    qed
    from s1 s2 show "rag_agent_confidence (Inr kb_docs) = min (Max (set scores)) 1
      \<and> (list_all (\<lambda>s. 0 \<le> s) scores \<longrightarrow>
           rag_agent_confidence (Inr kb_docs) = spec_confidence scores)"
      by blast
  qed
  have c: "master_confidence (Inr steps) =
       (if list_ex (\<lambda>step. fst step \<in> set [''sql_query'', ''get_sql_schema'', ''table_preview'',
                                             ''rag_search'']) steps
        then 0.9 else 0.5)"
    unfolding master_confidence_def using sources_of_empty [of steps] by simp
  from a b c show ?thesis by blast
qed

theorem confidence_scores_witness:
  "rag_agent_confidence
      (Inr [\<lparr>page_content = ''fees'', metadata = [''retrieval_score'' \<mapsto> MFloat 0.82]\<rparr>,
            \<lparr>page_content = ''courses'', metadata = [''retrieval_score'' \<mapsto> MFloat 0.75]\<rparr>])
     = 0.82
   \<and> spec_confidence [0.82, 0.75] = 0.82"
proof -
  let ?docs = "[\<lparr>page_content = ''fees'', metadata = [''retrieval_score'' \<mapsto> MFloat 0.82]\<rparr>,
            \<lparr>page_content = ''courses'', metadata = [''retrieval_score'' \<mapsto> MFloat 0.75]\<rparr>]"
  have h1: "?docs \<noteq> []" by simp
  have h2: "those (map retrieval_score ?docs) = Some [0.82, 0.75]"
    by (simp add: retrieval_score_def)
  have h3: "list_all (\<lambda>s. 0 \<le> s) [0.82 :: real, 0.75]" by simp
  note t = confidence_scores [of "Exception ''x''" ?docs "[0.82, 0.75]" "[]"]
  from t h1 h2 h3 have 1: "rag_agent_confidence (Inr ?docs) = spec_confidence [0.82, 0.75]"
    by blast
  have 2: "spec_confidence [0.82, 0.75] = 0.82"
    by (simp add: spec_confidence_def)
  from 1 2 show ?thesis by simp
qed

section \<open>Facts about the query enhancer\<close>

lemma generate_query_variations_head:
  "generate_query_variations llm query n \<noteq> [] \<and> hd (generate_query_variations llm query n) = query"
  by (simp add: generate_query_variations_def split: sum.split)

text \<open>
  Claim C8. For every query and optional context, and whatever the language model does,
  \<open>enhance_query\<close> returns a result (no exception leaves it: each call of the model is
  inside a handler) whose list of variations is not empty and begins with the original
  query. When every call of the model fails, the list of variations is the original
  query alone, the context-aware query is the original query, and the expanded query and
  the keywords are the ones computed without the model.
\<close>

theorem enhance_query_degrades:
  "variations (enhance_query llm query context) \<noteq> []
   \<and> hd (variations (enhance_query llm query context)) = query
   \<and> original (enhance_query llm query context) = query
   \<and> total_queries (enhance_query llm query context)
       = length (variations (enhance_query llm query context))
   \<and> ((\<forall>prompt. \<exists>e. llm prompt = Inl e) \<longrightarrow>
         variations (enhance_query llm query context) = [query]
       \<and> context_aware (enhance_query llm query context) = query
       \<and> expanded (enhance_query llm query context) = expand_acronyms query
       \<and> query_keywords (enhance_query llm query context) = extract_keywords query 5
       \<and> total_queries (enhance_query llm query context) = 1)"
proof -
  note h = generate_query_variations_head [of llm query 3]
  have a: "variations (enhance_query llm query context) \<noteq> []
   \<and> hd (variations (enhance_query llm query context)) = query
   \<and> original (enhance_query llm query context) = query
   \<and> total_queries (enhance_query llm query context)
       = length (variations (enhance_query llm query context))"
    using h by (auto simp: enhance_query_def Let_def split: option.splits)
  have b: "(\<forall>prompt. \<exists>e. llm prompt = Inl e) \<longrightarrow>
         variations (enhance_query llm query context) = [query]
       \<and> context_aware (enhance_query llm query context) = query
       \<and> expanded (enhance_query llm query context) = expand_acronyms query
       \<and> query_keywords (enhance_query llm query context) = extract_keywords query 5
       \<and> total_queries (enhance_query llm query context) = 1"
  proof
    assume f: "\<forall>prompt. \<exists>e. llm prompt = Inl e"
    from f obtain e1 where "llm (variations_prompt query 3) = Inl e1" by blast
    then have v: "generate_query_variations llm query 3 = [query]"
      by (simp add: generate_query_variations_def)
    have c: "\<And>c. generate_context_aware_query llm query c = query"
    proof -
      fix c
      from f obtain e2 where "llm (context_prompt query c) = Inl e2" by blast
      then show "generate_context_aware_query llm query c = query"
        by (simp add: generate_context_aware_query_def)
    qed
    show "variations (enhance_query llm query context) = [query]
       \<and> context_aware (enhance_query llm query context) = query
       \<and> expanded (enhance_query llm query context) = expand_acronyms query
       \<and> query_keywords (enhance_query llm query context) = extract_keywords query 5
       \<and> total_queries (enhance_query llm query context) = 1"
      by (simp add: enhance_query_def Let_def v c split: option.splits)
  qed
  from a b show ?thesis by blast
qed

theorem enhance_query_degrades_witness:
  "(\<forall>prompt. \<exists>e. failing_llm prompt = Inl e)
   \<and> variations (enhance_query failing_llm ''What is CRM?'' (Some ''User: hello'')) = [''What is CRM?'']
   \<and> context_aware (enhance_query failing_llm ''What is CRM?'' (Some ''User: hello'')) = ''What is CRM?''
   \<and> expanded (enhance_query failing_llm ''What is CRM?'' (Some ''User: hello''))
       = ''What is CRM (Customer Relationship Management)''"
proof -
  have f: "\<forall>prompt. \<exists>e. failing_llm prompt = Inl e"
    by (simp add: failing_llm_def)
  have x: "expand_acronyms ''What is CRM?'' = ''What is CRM (Customer Relationship Management)''"
    by code_simp
  note t = enhance_query_degrades [of failing_llm "''What is CRM?''" "Some ''User: hello''"]
  from t f x show ?thesis by simp
qed

section \<open>The document store: orphans and childless parents\<close>

text \<open>What a loop keeps: a property that every run of the body keeps, raising or not,
  holds of the state the loop leaves; a property that every run of the body that does not
  raise keeps holds of the state the loop leaves when it ends without raising.\<close>

lemma run_loop_always:
  assumes "\<And>st x. P st \<Longrightarrow> P (fst (body st x))" and "P st"
  shows "P (fst (run_loop body st xs))"
  using assms(2)
proof (induction xs arbitrary: st)
  case Nil
  then show ?case by simp
next
  case (Cons x xs)
  from assms(1) [OF Cons.prems] have p: "P (fst (body st x))" .
  show ?case
  proof (cases "snd (body st x)")
    case None
    with Cons.IH [OF p] show ?thesis by simp
  next
    case (Some e)
    with p show ?thesis by simp
  qed
qed

lemma run_loop_returned:
  assumes "\<And>st x. Q st \<Longrightarrow> snd (body st x) = None \<Longrightarrow> Q (fst (body st x))"
    and "Q st" and "snd (run_loop body st xs) = None"
  shows "Q (fst (run_loop body st xs))"
  using assms(2,3)
proof (induction xs arbitrary: st)
  case Nil
  then show ?case by simp
next
  case (Cons x xs)
  show ?case
  proof (cases "snd (body st x)")
    case None
    from assms(1) [OF Cons.prems(1) None] have q: "Q (fst (body st x))" .
    from Cons.prems(2) None have "snd (run_loop body (fst (body st x)) xs) = None" by simp
    from Cons.IH [OF q this] None show ?thesis by simp
  next
    case (Some e)
    with Cons.prems(2) show ?thesis by simp
  qed
qed

text \<open>What the loop over the child chunks of the parent \<open>pid\<close> keeps true, from the store
  \<open>vs0\<close> it starts in.\<close>

lemma add_child_written:
  assumes "\<not> blank (snd item)" and "embed sv (snd item) = Inr u"
  shows "fst (add_child sv m pid st item) =
           ((fst st)\<lparr>child_store := (child_store (fst st))((pid, fst item) \<mapsto>
               \<lparr>page_content = snd item,
                metadata = m(''parent_id'' \<mapsto> MStr pid, ''chunk_index'' \<mapsto> MInt (int (fst item)),
                             ''chunk_type'' \<mapsto> MStr ''child'')\<rparr>)\<rparr>,
            snd st @ [(pid, fst item)])"
  using assms by (simp add: add_child_def Let_def)

lemma add_child_skipped:
  assumes "blank (snd item) \<or> (\<exists>e. embed sv (snd item) = Inl e)"
  shows "fst (add_child sv m pid st item) = st"
  using assms by (auto simp: add_child_def Let_def)

lemma add_child_inv:
  assumes inv: "child_loop_inv pid vs0 st"
  shows "child_loop_inv pid vs0 (fst (add_child sv m pid st item))"
proof (cases "blank (snd item) \<or> (\<exists>e. embed sv (snd item) = Inl e)")
  case True
  then show ?thesis using inv by (simp only: add_child_skipped)
next
  case False
  then obtain u where nb: "\<not> blank (snd item)" and em: "embed sv (snd item) = Inr u"
    by (cases "embed sv (snd item)") auto
  let ?doc = "\<lparr>page_content = snd item,
                metadata = m(''parent_id'' \<mapsto> MStr pid, ''chunk_index'' \<mapsto> MInt (int (fst item)),
                             ''chunk_type'' \<mapsto> MStr ''child'')\<rparr>"
  let ?vs = "(fst st)\<lparr>child_store := (child_store (fst st))((pid, fst item) \<mapsto> ?doc)\<rparr>"
  have w: "fst (add_child sv m pid st item) = (?vs, snd st @ [(pid, fst item)])"
    by (rule add_child_written [OF nb em])
  from inv have a1: "parent_store (fst st) = parent_store vs0"
    and a2: "children_named vs0 \<longrightarrow> children_named (fst st)"
    and a3: "\<forall>k. child_store vs0 k \<noteq> None \<longrightarrow> child_store (fst st) k \<noteq> None"
    and a4: "\<forall>p j. p \<noteq> pid \<longrightarrow> child_store (fst st) (p, j) = child_store vs0 (p, j)"
    and a5: "\<forall>k \<in> set (snd st). fst k = pid \<and> child_store (fst st) k \<noteq> None"
    by (simp_all add: child_loop_inv_def)
  have b1: "parent_store ?vs = parent_store vs0" using a1 by simp
  have b2: "children_named vs0 \<longrightarrow> children_named ?vs"
  proof
    assume "children_named vs0"
    with a2 have c: "children_named (fst st)" by blast
    show "children_named ?vs"
      unfolding children_named_def
    proof (intro allI impI)
      fix p i c
      assume h: "child_store ?vs (p, i) = Some c"
      show "metadata c ''parent_id'' = Some (MStr p) \<and> \<not> blank (page_content c)"
      proof (cases "(p, i) = (pid, fst item)")
        case True
        with h have "c = ?doc" by simp
        with True nb show ?thesis by simp
      next
        case False
        with h have "child_store (fst st) (p, i) = Some c" by (simp split: if_splits)
        with c show ?thesis unfolding children_named_def by blast
      qed
    qed
  qed
  have b3: "\<forall>k. child_store vs0 k \<noteq> None \<longrightarrow> child_store ?vs k \<noteq> None"
    using a3 by simp
  have b4: "\<forall>p j. p \<noteq> pid \<longrightarrow> child_store ?vs (p, j) = child_store vs0 (p, j)"
    using a4 by simp
  have b5: "\<forall>k \<in> set (snd st @ [(pid, fst item)]). fst k = pid \<and> child_store ?vs k \<noteq> None"
    using a5 by simp
  have b6: "snd st @ [(pid, fst item)] \<noteq> []" by simp
  show ?thesis
    unfolding w child_loop_inv_def fst_conv snd_conv
    using b1 b2 b3 b4 b5 b6 by blast
qed

lemma child_loop_inv_start: "child_loop_inv pid vs (vs, [])"
  by (simp add: child_loop_inv_def)

lemma child_loop:
  "child_loop_inv pid vs (fst (run_loop (add_child sv m pid) (vs, []) items))"
  by (rule run_loop_always [where P = "child_loop_inv pid vs"])
     (erule add_child_inv, rule child_loop_inv_start)

lemma child_loop_invD:
  assumes "child_loop_inv pid vs0 (vs, ids)"
  shows "parent_store vs = parent_store vs0"
    and "children_named vs0 \<Longrightarrow> children_named vs"
    and "child_store vs0 k \<noteq> None \<Longrightarrow> child_store vs k \<noteq> None"
    and "p \<noteq> pid \<Longrightarrow> child_store vs (p, j) = child_store vs0 (p, j)"
    and "k' \<in> set ids \<Longrightarrow> fst k' = pid \<and> child_store vs k' \<noteq> None"
    and "ids = [] \<Longrightarrow> child_store vs = child_store vs0"
  using assms unfolding child_loop_inv_def fst_conv snd_conv by blast+

lemma after_children:
  assumes inv: "child_loop_inv pid vs1 (vs2, ids)"
    and ps: "parent_store vs1 = parent_store vs0" and cs: "child_store vs1 = child_store vs0"
  shows "children_named vs0 \<Longrightarrow> children_named vs2"
    and "no_childless vs0 \<Longrightarrow> no_childless vs2"
    and "ids = [] \<Longrightarrow> no_orphans vs0 \<Longrightarrow> no_orphans vs2"
proof -
  have cn: "children_named vs1 = children_named vs0"
    by (simp add: children_named_def cs)
  show "children_named vs0 \<Longrightarrow> children_named vs2"
    using child_loop_invD(2) [OF inv] cn by simp
  show "no_childless vs0 \<Longrightarrow> no_childless vs2"
    unfolding no_childless_def child_loop_invD(1) [OF inv] ps
    using child_loop_invD(3) [OF inv] cs by metis
  show "ids = [] \<Longrightarrow> no_orphans vs0 \<Longrightarrow> no_orphans vs2"
    unfolding no_orphans_def child_loop_invD(1) [OF inv] ps
    using child_loop_invD(6) [OF inv] cs by simp
qed

lemma after_parent:
  assumes inv: "child_loop_inv pid vs1 (vs2, ids)"
    and ps: "parent_store vs1 = parent_store vs0" and cs: "child_store vs1 = child_store vs0"
    and ne: "ids \<noteq> []"
    and vs3: "vs3 = vs2\<lparr>parent_store := (parent_store vs2)(pid \<mapsto> d), parent_child_map := pm\<rparr>"
  shows "children_named vs0 \<Longrightarrow> children_named vs3"
    and "no_childless vs0 \<Longrightarrow> no_childless vs3"
    and "no_orphans vs0 \<Longrightarrow> no_orphans vs3"
proof -
  have c3: "child_store vs3 = child_store vs2" by (simp add: vs3)
  have p3: "parent_store vs3 = (parent_store vs0)(pid \<mapsto> d)"
    by (simp add: vs3 child_loop_invD(1) [OF inv] ps)
  from ne obtain k where k: "k \<in> set ids" by (cases ids) auto
  from child_loop_invD(5) [OF inv k] obtain j where j: "child_store vs2 (pid, j) \<noteq> None"
    by (cases k) auto
  show "children_named vs0 \<Longrightarrow> children_named vs3"
    using after_children(1) [OF inv ps cs] by (simp add: children_named_def c3)
  show "no_childless vs3" if h: "no_childless vs0"
    unfolding no_childless_def
  proof (intro allI impI)
    fix p assume a: "parent_store vs3 p \<noteq> None"
    show "\<exists>i. child_store vs3 (p, i) \<noteq> None"
    proof (cases "p = pid")
      case True
      with j c3 show ?thesis by auto
    next
      case False
      with a p3 have "parent_store vs0 p \<noteq> None" by simp
      with h obtain i where "child_store vs0 (p, i) \<noteq> None"
        unfolding no_childless_def by blast
      with False child_loop_invD(4) [OF inv False] cs c3 show ?thesis by metis
    qed
  qed
  show "no_orphans vs3" if h: "no_orphans vs0"
    unfolding no_orphans_def
  proof (intro allI impI)
    fix p i assume a: "child_store vs3 (p, i) \<noteq> None"
    show "parent_store vs3 p \<noteq> None"
    proof (cases "p = pid")
      case True
      with p3 show ?thesis by simp
    next
      case False
      from a c3 child_loop_invD(4) [OF inv False] cs
      have "child_store vs0 (p, i) \<noteq> None" by metis
      with h have "parent_store vs0 p \<noteq> None" unfolding no_orphans_def by blast
      with False p3 show ?thesis by simp
    qed
  qed
qed

lemma add_parent_chunk_inv:
  shows "children_named (fst st) \<Longrightarrow> children_named (fst (fst (add_parent_chunk sv m st chunk)))"
    and "no_childless (fst st) \<Longrightarrow> no_childless (fst (fst (add_parent_chunk sv m st chunk)))"
    and "no_orphans (fst st) \<Longrightarrow> snd (add_parent_chunk sv m st chunk) = None
           \<Longrightarrow> no_orphans (fst (fst (add_parent_chunk sv m st chunk)))"
proof -
  define pid where "pid = uuid4 sv (drawn (fst st))"
  define vs1 where "vs1 = (fst st)\<lparr>drawn := drawn (fst st) + 1\<rparr>"
  define items where "items = enumerate 0 (case child_splitter sv chunk of
                                             Inl e \<Rightarrow> [chunk] | Inr chunks \<Rightarrow> chunks)"
  define children where "children = run_loop (add_child sv m pid) (vs1, []) items"
  define vs2 where "vs2 = fst (fst children)"
  define ids where "ids = snd (fst children)"
  define d where "d = \<lparr>page_content = chunk,
                         metadata = m(''chunk_type'' \<mapsto> MStr ''parent'',
                                      ''num_children'' \<mapsto> MInt (int (length ids)))\<rparr>"
  define vs3 where "vs3 = vs2\<lparr>parent_store := (parent_store vs2)(pid \<mapsto> d),
                               parent_child_map := (parent_child_map vs2)(pid \<mapsto> ids)\<rparr>"
  have inv: "child_loop_inv pid vs1 (vs2, ids)"
    unfolding vs2_def ids_def children_def using child_loop [of pid vs1 sv m items] by simp
  have ps: "parent_store vs1 = parent_store (fst st)" and cs: "child_store vs1 = child_store (fst st)"
    by (simp_all add: vs1_def)
  note ac = after_children [OF inv ps cs]
  note ap = after_parent [OF inv ps cs _ vs3_def]
  have r: "add_parent_chunk sv m st chunk =
             (if blank chunk then (st, None)
              else case snd children of
                     Some e \<Rightarrow> ((vs2, snd st), Some e)
                   | None \<Rightarrow>
                       if ids \<noteq> [] then
                         (case embed sv chunk of
                            Inl e \<Rightarrow> ((vs2, snd st), Some e)
                          | Inr u \<Rightarrow> ((vs3, snd st @ [pid]), None))
                       else ((vs2, snd st), None))"
    by (simp add: add_parent_chunk_def Let_def pid_def vs1_def items_def children_def
                  vs2_def ids_def d_def vs3_def
             cong: option.case_cong sum.case_cong if_cong)
  consider (skip) "fst (add_parent_chunk sv m st chunk) = st"
    | (raised) "fst (fst (add_parent_chunk sv m st chunk)) = vs2"
               "snd (add_parent_chunk sv m st chunk) \<noteq> None"
    | (childless) "fst (fst (add_parent_chunk sv m st chunk)) = vs2" "ids = []"
    | (stored) "fst (fst (add_parent_chunk sv m st chunk)) = vs3" "ids \<noteq> []"
  proof (cases "blank chunk")
    case True
    with r skip show ?thesis by simp
  next
    case nb: False
    show ?thesis
    proof (cases "snd children")
      case (Some e)
      with r nb raised show ?thesis by simp
    next
      case None
      show ?thesis
      proof (cases "ids = []")
        case True
        with r nb None childless show ?thesis by simp
      next
        case ne: False
        show ?thesis
        proof (cases "embed sv chunk")
          case (Inl e)
          with r nb None ne raised show ?thesis by simp
        next
          case (Inr u)
          with r nb None ne stored show ?thesis by simp
        qed
      qed
    qed
  qed
  note shape = this
  show "children_named (fst (fst (add_parent_chunk sv m st chunk)))" if h: "children_named (fst st)"
    using shape
  proof cases
    case skip with h show ?thesis by simp
  next
    case raised with ac(1) [OF h] show ?thesis by simp
  next
    case childless with ac(1) [OF h] show ?thesis by simp
  next
    case stored with ap(1) [OF stored(2) h] show ?thesis by simp
  qed
  show "no_childless (fst (fst (add_parent_chunk sv m st chunk)))" if h: "no_childless (fst st)"
    using shape
  proof cases
    case skip with h show ?thesis by simp
  next
    case raised with ac(2) [OF h] show ?thesis by simp
  next
    case childless with ac(2) [OF h] show ?thesis by simp
  next
    case stored with ap(2) [OF stored(2) h] show ?thesis by simp
  qed
  show "no_orphans (fst (fst (add_parent_chunk sv m st chunk)))"
    if h: "no_orphans (fst st)" and ret: "snd (add_parent_chunk sv m st chunk) = None"
    using shape
  proof cases
    case skip with h show ?thesis by simp
  next
    case raised with ret show ?thesis by simp
  next
    case childless with ac(3) [OF childless(2) h] show ?thesis by simp
  next
    case stored with ap(3) [OF stored(2) h] show ?thesis by simp
  qed
qed

lemma add_document_inv:
  shows "children_named (fst st) \<and> no_childless (fst st)
           \<Longrightarrow> children_named (fst (fst (add_document sv st doc)))
               \<and> no_childless (fst (fst (add_document sv st doc)))"
    and "no_orphans (fst st) \<Longrightarrow> snd (add_document sv st doc) = None
           \<Longrightarrow> no_orphans (fst (fst (add_document sv st doc)))"
proof -
  define chunks where "chunks = (case parent_splitter sv (page_content doc) of
                                   Inl e \<Rightarrow> [page_content doc] | Inr chunks \<Rightarrow> chunks)"
  have r: "add_document sv st doc =
             (if blank (page_content doc) then (st, None)
              else run_loop (add_parent_chunk sv (metadata doc)) st chunks)"
    by (simp add: add_document_def Let_def chunks_def)
  show "children_named (fst (fst (add_document sv st doc)))
          \<and> no_childless (fst (fst (add_document sv st doc)))"
    if h: "children_named (fst st) \<and> no_childless (fst st)"
  proof (cases "blank (page_content doc)")
    case True
    with r h show ?thesis by simp
  next
    case False
    have "children_named (fst (fst (run_loop (add_parent_chunk sv (metadata doc)) st chunks)))
            \<and> no_childless (fst (fst (run_loop (add_parent_chunk sv (metadata doc)) st chunks)))"
      by (rule run_loop_always [where P = "\<lambda>s. children_named (fst s) \<and> no_childless (fst s)"])
         (simp_all add: add_parent_chunk_inv(1,2) h)
    with r False show ?thesis by simp
  qed
  show "no_orphans (fst (fst (add_document sv st doc)))"
    if h: "no_orphans (fst st)" and ret: "snd (add_document sv st doc) = None"
  proof (cases "blank (page_content doc)")
    case True
    with r h show ?thesis by simp
  next
    case False
    with r ret have ret': "snd (run_loop (add_parent_chunk sv (metadata doc)) st chunks) = None"
      by simp
    have "no_orphans (fst (fst (run_loop (add_parent_chunk sv (metadata doc)) st chunks)))"
      by (rule run_loop_returned [where Q = "\<lambda>s. no_orphans (fst s)", OF _ h ret'])
         (rule add_parent_chunk_inv(3))
    with r False show ?thesis by simp
  qed
qed

lemma add_documents_inv:
  shows "children_named vs \<and> no_childless vs
           \<Longrightarrow> children_named (fst (add_documents sv vs documents))
               \<and> no_childless (fst (add_documents sv vs documents))"
    and "no_orphans vs \<Longrightarrow> snd (add_documents sv vs documents) = Inr ids
           \<Longrightarrow> no_orphans (fst (add_documents sv vs documents))"
proof -
  define r where "r = run_loop (add_document sv) (vs, []) documents"
  have f: "fst (add_documents sv vs documents) = fst (fst r)"
    by (simp add: add_documents_def Let_def r_def split: option.split)
  show "children_named (fst (add_documents sv vs documents))
          \<and> no_childless (fst (add_documents sv vs documents))"
    if h: "children_named vs \<and> no_childless vs"
    unfolding f r_def
    by (rule run_loop_always [where P = "\<lambda>s. children_named (fst s) \<and> no_childless (fst s)"])
       (simp_all add: add_document_inv(1) h)
  show "no_orphans (fst (add_documents sv vs documents))"
    if h: "no_orphans vs" and ret: "snd (add_documents sv vs documents) = Inr ids"
  proof -
    from ret have ret': "snd (run_loop (add_document sv) (vs, []) documents) = None"
      by (simp add: add_documents_def Let_def split: option.splits)
    have h': "no_orphans (fst (vs, []::string list))" using h by simp
    show ?thesis
      unfolding f r_def
      by (rule run_loop_returned [where Q = "\<lambda>s. no_orphans (fst s)", OF _ h' ret'])
         (rule add_document_inv(2))
  qed
qed

lemma empty_store_inv: "children_named empty_store" "no_childless empty_store" "no_orphans empty_store"
  by (simp_all add: children_named_def no_childless_def no_orphans_def empty_store_def)

lemma add_documents_calls_inv:
  shows "children_named vs \<and> no_childless vs
           \<Longrightarrow> children_named (fst (add_documents_calls vs calls))
               \<and> no_childless (fst (add_documents_calls vs calls))"
    and "no_orphans vs \<Longrightarrow> snd (add_documents_calls vs calls)
           \<Longrightarrow> no_orphans (fst (add_documents_calls vs calls))"
proof (induction calls arbitrary: vs)
  case Nil
  { case 1 then show ?case by simp
  next
    case 2 then show ?case by simp }
next
  case (Cons call rest)
  { case 1
    from add_documents_inv(1) [OF 1]
    have "children_named (fst (add_documents (fst call) vs (snd call)))
            \<and> no_childless (fst (add_documents (fst call) vs (snd call)))" .
    from Cons.IH(1) [OF this] show ?case by (simp add: Let_def)
  next
    case 2
    from 2(2) obtain ids where ret: "snd (add_documents (fst call) vs (snd call)) = Inr ids"
      and rest: "snd (add_documents_calls (fst (add_documents (fst call) vs (snd call))) rest)"
      by (cases "snd (add_documents (fst call) vs (snd call))") (simp_all add: Let_def)
    from add_documents_inv(2) [OF 2(1) ret]
    have "no_orphans (fst (add_documents (fst call) vs (snd call)))" .
    from Cons.IH(2) [OF this rest] show ?case by (simp add: Let_def) }
qed

text \<open>
  Against claim C4 as stated. The embedding service answers for the text \<open>alpha\<close> and
  raises for the text \<open>beta\<close>. The one call of \<open>add_documents\<close> on the empty store then
  raises \<open>Connection error.\<close>; the first child chunk, \<open>uuid-0_child_0\<close>, written
  before the exception, stays in the child collection, and its parent \<open>uuid-0\<close> is not in
  the parent collection: an orphan.
\<close>

theorem add_documents_orphan_counterexample:
  "snd (add_documents flaky_services empty_store [sample_document]) = Inl (Exception ''Connection error.'')
   \<and> map_option page_content
         (child_store (fst (add_documents_calls empty_store [(flaky_services, [sample_document])])) (''uuid-0'', 0))
       = Some ''alpha''
   \<and> map_option page_content
         (parent_store (fst (add_documents_calls empty_store [(flaky_services, [sample_document])])) ''uuid-0'')
       = None"
  by code_simp

text \<open>
  Claim C4, amended. After any sequence of \<open>add_documents\<close> calls on a store that was
  empty, whatever the splitters, the identifiers and the embedding service do at each call:
  every stored child chunk is not blank and carries, as \<open>parent_id\<close>, the parent that its
  identifier names; every stored parent chunk has a stored child chunk; and, if every call
  of the sequence has returned (none has raised), the parent of every stored child chunk is
  stored (no orphans).
\<close>

theorem add_documents_store_invariant:
  "children_named (fst (add_documents_calls empty_store calls))
   \<and> no_childless (fst (add_documents_calls empty_store calls))
   \<and> (snd (add_documents_calls empty_store calls)
        \<longrightarrow> no_orphans (fst (add_documents_calls empty_store calls)))"
  using add_documents_calls_inv [of empty_store calls] empty_store_inv by blast

theorem add_documents_store_invariant_witness:
  "snd (add_documents_calls empty_store
          [(reachable_services, [sample_document]), (reachable_services, [sample_document])])
   \<and> map_option page_content
         (child_store (fst (add_documents_calls empty_store
            [(reachable_services, [sample_document]), (reachable_services, [sample_document])])) (''uuid-1'', 1))
       = Some ''beta''
   \<and> map_option (\<lambda>c. metadata c ''parent_id'')
         (child_store (fst (add_documents_calls empty_store
            [(reachable_services, [sample_document]), (reachable_services, [sample_document])])) (''uuid-1'', 1))
       = Some (Some (MStr ''uuid-1''))
   \<and> parent_store (fst (add_documents_calls empty_store
            [(reachable_services, [sample_document]), (reachable_services, [sample_document])])) ''uuid-1''
       \<noteq> None"
proof -
  let ?calls = "[(reachable_services, [sample_document]), (reachable_services, [sample_document])]"
  let ?vs = "fst (add_documents_calls empty_store ?calls)"
  have h1: "snd (add_documents_calls empty_store ?calls)"
    by code_simp
  have h2: "map_option page_content (child_store ?vs (''uuid-1'', 1)) = Some ''beta''"
    by code_simp
  then obtain c where c: "child_store ?vs (''uuid-1'', 1) = Some c"
    by (cases "child_store ?vs (''uuid-1'', 1)") simp_all
  note th = add_documents_store_invariant [of ?calls]
  from th c have h3: "metadata c ''parent_id'' = Some (MStr ''uuid-1'')"
    unfolding children_named_def by blast
  from th h1 have "no_orphans ?vs" by blast
  with c have h4: "parent_store ?vs ''uuid-1'' \<noteq> None"
    unfolding no_orphans_def by blast
  from h1 h2 h3 h4 c show ?thesis by simp
qed

end
